theory Spec2Isabelle
  imports Complex_Main "HOL-Library.List_Lexorder"
begin

section \<open>Python values\<close>

text \<open>
  A Python \<open>str\<close> is a sequence of Unicode code points, so a string is a list of
  code points (naturals); \<open>U\<close> turns an ASCII literal into such a string.
  Comparison of two strings with \<open><\<close> is the lexicographic order on code points,
  which is the order of \<^theory_text>\<open>List_Lexorder\<close>.
\<close>

type_synonym ustr = "nat list"

abbreviation U :: "string \<Rightarrow> ustr" where
  "U s \<equiv> map of_char s"

text \<open>
  A Python \<open>float\<close> as far as truth value, equality and order see it: a finite
  value (a rational), an infinity or the not-a-number value.
\<close>

datatype pyfloat = Finite rat | PosInf | NegInf | NaN

text \<open>
  The values \<open>response.json()\<close> can return, which are also the values the
  analyzers build: \<open>None\<close>, \<open>bool\<close>, \<open>int\<close>, \<open>float\<close>, \<open>str\<close>, \<open>list\<close> and
  \<open>dict\<close> (keys in insertion order).
\<close>

datatype json =
    JNull
  | JBool bool
  | JInt int
  | JFloat pyfloat
  | JStr ustr
  | JArr "json list"
  | JObj "(ustr \<times> json) list"

text \<open>
  The exceptions the program can meet. The first four are requests' and are
  \<open>RequestException\<close>s (\<open>OtherRequestException\<close> stands for its other subclasses, the
  JSON error of requests itself among them); \<open>JSONDecodeError\<close> is the one of the
  \<open>json\<close> module; \<open>KeyboardInterrupt\<close> is not an \<open>Exception\<close>.
\<close>

datatype exn =
    ConnectionError
  | Timeout
  | HTTPError
  | OtherRequestException
  | JSONDecodeError
  | AttributeError
  | TypeError
  | KeyError
  | OSError
  | UnicodeEncodeError
  | KeyboardInterrupt

fun is_RequestException :: "exn \<Rightarrow> bool" where
  "is_RequestException ConnectionError = True"
| "is_RequestException Timeout = True"
| "is_RequestException HTTPError = True"
| "is_RequestException OtherRequestException = True"
| "is_RequestException _ = False"

fun is_Exception :: "exn \<Rightarrow> bool" where
  "is_Exception KeyboardInterrupt = False"
| "is_Exception _ = True"

text \<open>Truth value of a value (\<open>if x:\<close>, \<open>not x\<close>).\<close>

fun truthy :: "json \<Rightarrow> bool" where
  "truthy JNull = False"
| "truthy (JBool b) = b"
| "truthy (JInt i) = (i \<noteq> 0)"
| "truthy (JFloat (Finite q)) = (q \<noteq> 0)"
| "truthy (JFloat _) = True"
| "truthy (JStr s) = (s \<noteq> [])"
| "truthy (JArr xs) = (xs \<noteq> [])"
| "truthy (JObj kvs) = (kvs \<noteq> [])"

text \<open>The number a \<open>bool\<close>, \<open>int\<close> or \<open>float\<close> stands for in a comparison.\<close>

fun num_val :: "json \<Rightarrow> pyfloat option" where
  "num_val (JBool b) = Some (Finite (if b then 1 else 0))"
| "num_val (JInt i) = Some (Finite (of_int i))"
| "num_val (JFloat f) = Some f"
| "num_val _ = None"

fun float_lt :: "pyfloat \<Rightarrow> pyfloat \<Rightarrow> bool" where
  "float_lt NaN _ = False"
| "float_lt _ NaN = False"
| "float_lt (Finite a) (Finite b) = (a < b)"
| "float_lt (Finite a) PosInf = True"
| "float_lt NegInf (Finite b) = True"
| "float_lt NegInf PosInf = True"
| "float_lt _ _ = False"

text \<open>
  Equality as containers use it (\<open>==\<close>, after the identity shortcut): numbers by value
  across \<open>bool\<close>, \<open>int\<close> and \<open>float\<close>, strings and lists by content, dictionaries by
  their items whatever the order.
\<close>

fun py_eq :: "json \<Rightarrow> json \<Rightarrow> bool"
  and py_eq_list :: "json list \<Rightarrow> json list \<Rightarrow> bool"
  and py_eq_items :: "(ustr \<times> json) list \<Rightarrow> (ustr \<times> json) list \<Rightarrow> bool"
  and py_eq_item :: "ustr \<Rightarrow> json \<Rightarrow> (ustr \<times> json) list \<Rightarrow> bool" where
  "py_eq (JStr a) b = (case b of JStr c \<Rightarrow> a = c | _ \<Rightarrow> False)"
| "py_eq (JArr xs) b = (case b of JArr ys \<Rightarrow> py_eq_list xs ys | _ \<Rightarrow> False)"
| "py_eq (JObj a) b =
     (case b of JObj c \<Rightarrow> length a = length c \<and> py_eq_items a c | _ \<Rightarrow> False)"
| "py_eq JNull b = (b = JNull)"
| "py_eq (JBool x) b = (num_val b = Some (Finite (if x then 1 else 0)))"
| "py_eq (JInt i) b = (num_val b = Some (Finite (of_int i)))"
| "py_eq (JFloat f) b = (num_val b = Some f)"
| "py_eq_list [] ys = (ys = [])"
| "py_eq_list (x # xs) ys =
     (case ys of [] \<Rightarrow> False | y # ys' \<Rightarrow> py_eq x y \<and> py_eq_list xs ys')"
| "py_eq_items [] c = True"
| "py_eq_items ((k, v) # a) c = (py_eq_item k v c \<and> py_eq_items a c)"
| "py_eq_item k v [] = False"
| "py_eq_item k v ((k', w) # c) = (if k = k' then py_eq v w else py_eq_item k v c)"

text \<open>
  The order \<open>a < b\<close>: strings lexicographically by code point, numbers by value,
  lists by the first pair of unequal elements (or by length when there is none); every
  other pair of types raises \<open>TypeError\<close>.
\<close>

fun py_lt :: "json \<Rightarrow> json \<Rightarrow> exn + bool"
  and py_lt_list :: "json list \<Rightarrow> json list \<Rightarrow> exn + bool" where
  "py_lt (JStr a) b = (case b of JStr c \<Rightarrow> Inr (a < c) | _ \<Rightarrow> Inl TypeError)"
| "py_lt (JArr xs) b = (case b of JArr ys \<Rightarrow> py_lt_list xs ys | _ \<Rightarrow> Inl TypeError)"
| "py_lt (JObj a) b = Inl TypeError"
| "py_lt JNull b = Inl TypeError"
| "py_lt (JBool x) b =
     (case num_val b of Some g \<Rightarrow> Inr (float_lt (Finite (if x then 1 else 0)) g)
      | None \<Rightarrow> Inl TypeError)"
| "py_lt (JInt i) b =
     (case num_val b of Some g \<Rightarrow> Inr (float_lt (Finite (of_int i)) g)
      | None \<Rightarrow> Inl TypeError)"
| "py_lt (JFloat f) b =
     (case num_val b of Some g \<Rightarrow> Inr (float_lt f g) | None \<Rightarrow> Inl TypeError)"
| "py_lt_list [] ys = Inr (ys \<noteq> [])"
| "py_lt_list (x # xs) ys =
     (case ys of [] \<Rightarrow> Inr False
      | y # ys' \<Rightarrow> if py_eq x y then py_lt_list xs ys' else py_lt x y)"

text \<open>\<open>a > b\<close> is \<open>b < a\<close> on these values, exceptions included.\<close>

definition py_gt :: "json \<Rightarrow> json \<Rightarrow> exn + bool" where
  "py_gt a b = py_lt b a"

text \<open>\<open>d.get(k, default)\<close>: only a \<open>dict\<close> has the method.\<close>

definition dict_get :: "(ustr \<times> json) list \<Rightarrow> ustr \<Rightarrow> json \<Rightarrow> json" where
  "dict_get kvs k d = (case map_of kvs k of Some v \<Rightarrow> v | None \<Rightarrow> d)"

fun py_get :: "json \<Rightarrow> ustr \<Rightarrow> json \<Rightarrow> exn + json" where
  "py_get (JObj kvs) k d = Inr (dict_get kvs k d)"
| "py_get _ k d = Inl AttributeError"

text \<open>\<open>d[k]\<close> and the elements of a list, read only where the key is present and the
  value is a list (the dictionaries the analyzers have just built).\<close>

definition item :: "json \<Rightarrow> ustr \<Rightarrow> json" where
  "item d k = (case d of JObj kvs \<Rightarrow> dict_get kvs k JNull | _ \<Rightarrow> JNull)"

definition elements :: "json \<Rightarrow> json list" where
  "elements x = (case x of JArr xs \<Rightarrow> xs | _ \<Rightarrow> [])"

text \<open>\<open>list(d.keys())\<close>.\<close>

fun py_keys :: "json \<Rightarrow> exn + json list" where
  "py_keys (JObj kvs) = Inr (map (\<lambda>kv. JStr (fst kv)) kvs)"
| "py_keys _ = Inl AttributeError"

text \<open>\<open>len(x)\<close>.\<close>

fun py_len :: "json \<Rightarrow> exn + int" where
  "py_len (JArr xs) = Inr (int (length xs))"
| "py_len (JStr s) = Inr (int (length s))"
| "py_len (JObj kvs) = Inr (int (length kvs))"
| "py_len _ = Inl TypeError"

text \<open>\<open>xs[:limit]\<close> on a sequence: a negative limit counts from the end.\<close>

definition slice_to :: "'a list \<Rightarrow> int \<Rightarrow> 'a list" where
  "slice_to xs limit =
     (if 0 \<le> limit then take (nat limit) xs else take (nat (int (length xs) + limit)) xs)"

text \<open>
  The elements the loop \<open>for ... in x[:limit]\<close> visits: a list gives its elements, a
  string its characters; a \<open>dict\<close> looks the slice up as a key and raises \<open>KeyError\<close>
  (a slice is hashable from Python 3.12 on, the version the nested quotes in the
  f-string of \<open>explore_sets\<close> need), any other value is not subscriptable.
\<close>

fun sampled :: "json \<Rightarrow> int \<Rightarrow> exn + json list" where
  "sampled (JArr xs) limit = Inr (slice_to xs limit)"
| "sampled (JStr s) limit = Inr (map (\<lambda>c. JStr [c]) (slice_to s limit))"
| "sampled (JObj kvs) limit = Inl KeyError"
| "sampled _ limit = Inl TypeError"

subsection \<open>Strings\<close>

text \<open>The code points \<open>str.strip()\<close> removes (those for which \<open>str.isspace\<close> holds).\<close>

definition is_space :: "nat \<Rightarrow> bool" where
  "is_space c \<longleftrightarrow>
     (9 \<le> c \<and> c \<le> 13) \<or> (28 \<le> c \<and> c \<le> 32) \<or> c = 133 \<or> c = 160 \<or> c = 5760 \<or>
     (8192 \<le> c \<and> c \<le> 8202) \<or> c = 8232 \<or> c = 8233 \<or> c = 8239 \<or> c = 8287 \<or> c = 12288"

definition strip :: "ustr \<Rightarrow> ustr" where
  "strip s = rev (dropWhile is_space (rev (dropWhile is_space s)))"

text \<open>The hyphen-minus \<open>'-'\<close> (U+002D) and the em dash (U+2014).\<close>

definition hyphen :: nat where
  "hyphen = 45"

definition em_dash :: nat where
  "em_dash = 8212"

text \<open>\<open>s.split('-')[0]\<close>: the part of \<open>s\<close> before its first hyphen-minus, all of \<open>s\<close>
  when it has none.\<close>

definition split_first :: "ustr \<Rightarrow> ustr" where
  "split_first s = takeWhile (\<lambda>c. c \<noteq> hyphen) s"

subsection \<open>Sets\<close>

text \<open>
  A Python \<open>set\<close> is kept as the list of its elements, no two of them equal; the order
  of \<open>list(s)\<close> is not specified by Python, and nothing below depends on it beyond the
  set of elements. Lists and dictionaries are not hashable.
\<close>

fun hashable :: "json \<Rightarrow> bool" where
  "hashable (JArr xs) = False"
| "hashable (JObj kvs) = False"
| "hashable _ = True"

definition set_add :: "json list \<Rightarrow> json \<Rightarrow> exn + json list" where
  "set_add s x =
     (if \<not> hashable x then Inl TypeError
      else Inr (if list_ex (\<lambda>y. py_eq y x) s then s else s @ [x]))"

fun set_add_all :: "json list \<Rightarrow> json list \<Rightarrow> exn + json list" where
  "set_add_all s [] = Inr s"
| "set_add_all s (x # xs) =
     (case set_add s x of Inl e \<Rightarrow> Inl e | Inr s' \<Rightarrow> set_add_all s' xs)"

text \<open>\<open>s.update(x)\<close> adds what iterating \<open>x\<close> yields.\<close>

fun set_update :: "json list \<Rightarrow> json \<Rightarrow> exn + json list" where
  "set_update s (JArr xs) = set_add_all s xs"
| "set_update s (JStr t) = set_add_all s (map (\<lambda>c. JStr [c]) t)"
| "set_update s (JObj kvs) = set_add_all s (map (\<lambda>kv. JStr (fst kv)) kvs)"
| "set_update s _ = Inl TypeError"

section \<open>The HTTP client wrapper\<close>

text \<open>
  A log line is its level and the parts of its f-string: literal text, an interpolated
  value or an interpolated exception.
\<close>

datatype level = INFO | SUCCESS | ERROR

datatype part = T ustr | V json | E exn

type_synonym log = "(level \<times> part list) list"

text \<open>
  What the program sees of a \<open>requests.Response\<close>: its status code, whether
  \<open>raise_for_status()\<close> raises (requests decides from the status), and what
  \<open>json()\<close> returns or raises.
\<close>

record response =
  status_code :: int
  raise_for_status :: "exn option"
  json_result :: "exn + json"

text \<open>
  The explorer object: its base URL and its session, whose \<open>get(url, params,
  timeout=30)\<close> returns a response or raises. The pause before each request takes
  time only and is left out.
\<close>

record ScryfallExplorer =
  base_url :: ustr
  session_get :: "ustr \<Rightarrow> json \<Rightarrow> exn + response"

definition init :: "(ustr \<Rightarrow> json \<Rightarrow> exn + response) \<Rightarrow> ScryfallExplorer" where
  "init g = \<lparr>base_url = U ''https://api.scryfall.com'', session_get = g\<rparr>"

text \<open>The two \<open>except\<close> clauses of \<open>_make_request\<close>, in their order; an exception of
  neither class goes on to the caller.\<close>

definition request_handlers :: "ustr \<Rightarrow> log \<Rightarrow> exn \<Rightarrow> (exn + json) \<times> log" where
  "request_handlers url l e =
     (if is_RequestException e then
        (Inr JNull,
         l @ [(ERROR, [T (U ''Erro na requisi'' @ [231, 227] @ U ''o para ''), T url,
                       T (U '': ''), E e])])
      else if e = JSONDecodeError then
        (Inr JNull,
         l @ [(ERROR, [T (U ''Erro ao decodificar JSON de ''), T url, T (U '': ''), E e])])
      else (Inl e, l))"

text \<open>\<open>_make_request(endpoint, params)\<close>: the value returned (\<open>JNull\<close> is \<open>None\<close>) or the
  exception raised, and the lines logged.\<close>

definition make_request :: "ScryfallExplorer \<Rightarrow> ustr \<Rightarrow> json \<Rightarrow> (exn + json) \<times> log" where
  "make_request self endpoint params =
     (let url = base_url self @ endpoint;
          l1 = [(INFO, [T (U ''Fazendo requisi'' @ [231, 227] @ U ''o para: ''), T url])]
               @ (if truthy params
                  then [(INFO, [T (U ''Par'' @ [226] @ U ''metros: ''), V params])] else [])
      in case session_get self url params of
           Inl e \<Rightarrow> request_handlers url l1 e
         | Inr resp \<Rightarrow>
             (case raise_for_status resp of
                Some e \<Rightarrow> request_handlers url l1 e
              | None \<Rightarrow>
                  (let l2 = l1 @ [(SUCCESS,
                         [T (U ''Requisi'' @ [231, 227] @ U ''o bem-sucessida - Status: ''),
                          V (JInt (status_code resp))])]
                   in case json_result resp of
                        Inl e \<Rightarrow> request_handlers url l2 e
                      | Inr j \<Rightarrow> (Inr j, l2))))"

section \<open>The set analyzer\<close>

text \<open>What the loop of \<open>explore_sets\<close> updates: \<open>analysis["sample_sets"]\<close>,
  \<open>analysis["set_types"]\<close> and the two entries of \<open>analysis["date_range"]\<close>.\<close>

record sets_acc =
  sample_sets :: "json list"
  set_types :: "json list"
  oldest :: json
  newest :: json

definition sets_init :: sets_acc where
  "sets_init = \<lparr>sample_sets = [], set_types = [], oldest = JNull, newest = JNull\<rparr>"

text \<open>The \<open>set_info\<close> dictionary of one entry.\<close>

definition set_info :: "(ustr \<times> json) list \<Rightarrow> json" where
  "set_info kvs = JObj
     [(U ''object'', dict_get kvs (U ''object'') JNull),
      (U ''code'', dict_get kvs (U ''code'') JNull),
      (U ''name'', dict_get kvs (U ''name'') JNull),
      (U ''set_type'', dict_get kvs (U ''set_type'') JNull),
      (U ''card_count'', dict_get kvs (U ''card_count'') JNull),
      (U ''released_at'', dict_get kvs (U ''released_at'') JNull),
      (U ''keys'', JArr (map (\<lambda>kv. JStr (fst kv)) kvs))]"

text \<open>The temporal analysis of one entry (the body of \<open>if release_date:\<close>).\<close>

definition date_step :: "sets_acc \<Rightarrow> json \<Rightarrow> exn + sets_acc" where
  "date_step acc release_date =
     (case (if \<not> truthy (oldest acc) then Inr True else py_lt release_date (oldest acc)) of
        Inl e \<Rightarrow> Inl e
      | Inr b \<Rightarrow>
          (let acc1 = (if b then acc\<lparr>oldest := release_date\<rparr> else acc)
           in case (if \<not> truthy (newest acc1) then Inr True
                    else py_gt release_date (newest acc1)) of
                Inl e \<Rightarrow> Inl e
              | Inr b' \<Rightarrow> Inr (if b' then acc1\<lparr>newest := release_date\<rparr> else acc1)))"

text \<open>One turn of the loop. An entry that is not a dictionary has no \<open>get\<close>.\<close>

fun sets_body :: "sets_acc \<Rightarrow> json \<Rightarrow> exn + sets_acc" where
  "sets_body acc (JObj kvs) =
     (case set_add (set_types acc) (dict_get kvs (U ''set_type'') JNull) of
        Inl e \<Rightarrow> Inl e
      | Inr st \<Rightarrow>
          (let acc1 = acc\<lparr>sample_sets := sample_sets acc @ [set_info kvs], set_types := st\<rparr>;
               release_date = dict_get kvs (U ''released_at'') JNull
           in if truthy release_date then date_step acc1 release_date else Inr acc1))"
| "sets_body acc _ = Inl AttributeError"

fun sets_loop :: "sets_acc \<Rightarrow> json list \<Rightarrow> exn + sets_acc" where
  "sets_loop acc [] = Inr acc"
| "sets_loop acc (e # es) =
     (case sets_body acc e of Inl x \<Rightarrow> Inl x | Inr acc' \<Rightarrow> sets_loop acc' es)"

text \<open>\<open>explore_sets\<close> after the fetch, on a truthy payload: the \<open>analysis\<close> dictionary.\<close>

definition sets_analysis :: "json \<Rightarrow> int \<Rightarrow> exn + json" where
  "sets_analysis sets_data limit =
     (case py_get sets_data (U ''data'') (JArr []) of Inl e \<Rightarrow> Inl e | Inr d \<Rightarrow>
     (case py_len d of Inl e \<Rightarrow> Inl e | Inr n \<Rightarrow>
     (case py_keys sets_data of Inl e \<Rightarrow> Inl e | Inr ks \<Rightarrow>
     (case sampled d limit of Inl e \<Rightarrow> Inl e | Inr es \<Rightarrow>
     (case sets_loop sets_init es of Inl e \<Rightarrow> Inl e | Inr acc \<Rightarrow>
        Inr (JObj
          [(U ''total_sets'', JInt n),
           (U ''structure_keys'', JArr ks),
           (U ''sample_sets'', JArr (sample_sets acc)),
           (U ''set_types'', JArr (set_types acc)),
           (U ''date_range'',
              JObj [(U ''oldest'', oldest acc), (U ''newest'', newest acc)])]))))))"

definition sets_error :: json where
  "sets_error = JObj [(U ''error'', JStr (U ''Falha ao obter dados dos sets''))]"

text \<open>\<open>explore_sets(limit)\<close>: the dictionary returned or the exception raised, and the
  lines logged.\<close>

definition explore_sets :: "ScryfallExplorer \<Rightarrow> int \<Rightarrow> (exn + json) \<times> log" where
  "explore_sets self limit =
     (let l0 = [(INFO, [T (U ''Explorando endpoint /sets'')])];
          (r, l1) = make_request self (U ''/sets'') JNull
      in case r of
           Inl e \<Rightarrow> (Inl e, l0 @ l1)
         | Inr sets_data \<Rightarrow>
             if \<not> truthy sets_data then (Inr sets_error, l0 @ l1)
             else (case sets_analysis sets_data limit of
                     Inl e \<Rightarrow> (Inl e, l0 @ l1)
                   | Inr analysis \<Rightarrow>
                       (Inr analysis,
                        l0 @ l1 @
                        [(INFO, [T (U ''An'' @ [225] @ U ''lise dos sets: ''),
                                 V (JInt (int (length
                                      (elements (item analysis (U ''sample_sets'')))))),
                                 T (U '' sets an'' @ [225] @ U ''lisados'')]),
                         (INFO, [T (U ''An'' @ [225] @ U ''lise completa: ''),
                                 V (item analysis (U ''total_sets'')),
                                 T (U '' sets encontrados'')])])))"

section \<open>The card analyzer\<close>

text \<open>What the loop of \<open>explore_cards\<close> updates: \<open>analysis["sample_cards"]\<close> and the four
  sets.\<close>

record cards_acc =
  sample_cards :: "json list"
  card_types :: "json list"
  colors :: "json list"
  rarities :: "json list"
  languages :: "json list"

definition cards_init :: cards_acc where
  "cards_init =
     \<lparr>sample_cards = [], card_types = [], colors = [], rarities = [], languages = []\<rparr>"

text \<open>The \<open>card_info\<close> dictionary of one card.\<close>

definition card_info :: "(ustr \<times> json) list \<Rightarrow> json" where
  "card_info kvs = JObj
     [(U ''name'', dict_get kvs (U ''name'') JNull),
      (U ''mana_cost'', dict_get kvs (U ''mana_cost'') JNull),
      (U ''type_line'', dict_get kvs (U ''type_line'') JNull),
      (U ''rarity'', dict_get kvs (U ''rarity'') JNull),
      (U ''colors'', dict_get kvs (U ''colors'') (JArr [])),
      (U ''set'', dict_get kvs (U ''set'') JNull),
      (U ''lang'', dict_get kvs (U ''lang'') JNull),
      (U ''keys'', JArr (map (\<lambda>kv. JStr (fst kv)) kvs)),
      (U ''total_keys'', JInt (int (length kvs)))]"

text \<open>\<open>type_line.split('-')[0].strip()\<close>.\<close>

definition bucket :: "ustr \<Rightarrow> ustr" where
  "bucket type_line = strip (split_first type_line)"

text \<open>\<open>if card.get('type_line'): card_types.add(...)\<close>; only a \<open>str\<close> has \<open>split\<close>.\<close>

definition add_card_type :: "json list \<Rightarrow> json \<Rightarrow> exn + json list" where
  "add_card_type s type_line =
     (if truthy type_line then
        (case type_line of JStr t \<Rightarrow> set_add s (JStr (bucket t)) | _ \<Rightarrow> Inl AttributeError)
      else Inr s)"

text \<open>\<open>if x: s.add(x)\<close> and \<open>if x: s.update(x)\<close>.\<close>

definition add_if :: "json list \<Rightarrow> json \<Rightarrow> exn + json list" where
  "add_if s x = (if truthy x then set_add s x else Inr s)"

definition update_if :: "json list \<Rightarrow> json \<Rightarrow> exn + json list" where
  "update_if s x = (if truthy x then set_update s x else Inr s)"

text \<open>One turn of the loop: the card's summary is appended, then the four aggregations
  run in the order of the source.\<close>

fun cards_body :: "cards_acc \<Rightarrow> json \<Rightarrow> exn + cards_acc" where
  "cards_body acc (JObj kvs) =
     (case add_card_type (card_types acc) (dict_get kvs (U ''type_line'') JNull) of
        Inl e \<Rightarrow> Inl e | Inr ts \<Rightarrow>
     (case add_if (rarities acc) (dict_get kvs (U ''rarity'') JNull) of
        Inl e \<Rightarrow> Inl e | Inr rs \<Rightarrow>
     (case update_if (colors acc) (dict_get kvs (U ''colors'') JNull) of
        Inl e \<Rightarrow> Inl e | Inr cs \<Rightarrow>
     (case add_if (languages acc) (dict_get kvs (U ''lang'') JNull) of
        Inl e \<Rightarrow> Inl e | Inr ls \<Rightarrow>
        Inr \<lparr>sample_cards = sample_cards acc @ [card_info kvs], card_types = ts,
             colors = cs, rarities = rs, languages = ls\<rparr>))))"
| "cards_body acc _ = Inl AttributeError"

fun cards_loop :: "cards_acc \<Rightarrow> json list \<Rightarrow> exn + cards_acc" where
  "cards_loop acc [] = Inr acc"
| "cards_loop acc (c # cs) =
     (case cards_body acc c of Inl x \<Rightarrow> Inl x | Inr acc' \<Rightarrow> cards_loop acc' cs)"

text \<open>\<open>explore_cards\<close> after the fetch, on a truthy payload: the \<open>analysis\<close> dictionary.\<close>

definition cards_analysis :: "json \<Rightarrow> int \<Rightarrow> exn + json" where
  "cards_analysis cards_data limit =
     (case py_get cards_data (U ''total_cards'') (JInt 0) of Inl e \<Rightarrow> Inl e | Inr tc \<Rightarrow>
     (case py_get cards_data (U ''has_more'') (JBool False) of Inl e \<Rightarrow> Inl e | Inr hm \<Rightarrow>
     (case py_keys cards_data of Inl e \<Rightarrow> Inl e | Inr ks \<Rightarrow>
     (case py_get cards_data (U ''data'') (JArr []) of Inl e \<Rightarrow> Inl e | Inr d \<Rightarrow>
     (case sampled d limit of Inl e \<Rightarrow> Inl e | Inr cs \<Rightarrow>
     (case cards_loop cards_init cs of Inl e \<Rightarrow> Inl e | Inr acc \<Rightarrow>
        Inr (JObj
          [(U ''total_cards'', tc),
           (U ''has_more'', hm),
           (U ''structure_keys'', JArr ks),
           (U ''sample_cards'', JArr (sample_cards acc)),
           (U ''card_types'', JArr (card_types acc)),
           (U ''colors'', JArr (colors acc)),
           (U ''rarities'', JArr (rarities acc)),
           (U ''languages'', JArr (languages acc))])))))))"

definition cards_error :: "ustr \<Rightarrow> json" where
  "cards_error set_core =
     JObj [(U ''error'', JStr (U ''Falha ao obter cartas do set '' @ set_core))]"

text \<open>\<open>explore_cards(set_core, limit)\<close>: the dictionary returned or the exception raised,
  and the lines logged.\<close>

definition explore_cards :: "ScryfallExplorer \<Rightarrow> ustr \<Rightarrow> int \<Rightarrow> (exn + json) \<times> log" where
  "explore_cards self set_core limit =
     (let l0 = [(INFO, [T (U ''Explorando cartas do set: ''), T set_core])];
          params = JObj [(U ''q'', JStr (U ''set:'' @ set_core)), (U ''page'', JInt 1)];
          (r, l1) = make_request self (U ''/cards/search'') params
      in case r of
           Inl e \<Rightarrow> (Inl e, l0 @ l1)
         | Inr cards_data \<Rightarrow>
             if \<not> truthy cards_data then (Inr (cards_error set_core), l0 @ l1)
             else (case cards_analysis cards_data limit of
                     Inl e \<Rightarrow> (Inl e, l0 @ l1)
                   | Inr analysis \<Rightarrow>
                       (Inr analysis,
                        l0 @ l1 @
                        [(INFO, [T (U ''An'' @ [225] @ U ''lise completa: ''),
                                 V (item analysis (U ''total_cards'')),
                                 T (U '' cartas no set ''), T set_core])])))"

section \<open>The result persister\<close>

text \<open>
  The file system as the persister touches it: the directories that exist and the
  files with what was written to them. \<open>json.dump\<close> writes the text of a value; the
  file holds that value when the dump ran to its end and is cut short when it raised.
\<close>

datatype file_content = Written json | Truncated

record filesystem =
  dirs :: "ustr list"
  files :: "(ustr \<times> file_content) list"

text \<open>Opening a path with mode \<open>'w'\<close> and writing: the file is created, or what it
  held is replaced.\<close>

fun write_file ::
  "ustr \<Rightarrow> file_content \<Rightarrow> (ustr \<times> file_content) list \<Rightarrow> (ustr \<times> file_content) list" where
  "write_file p c [] = [(p, c)]"
| "write_file p c ((q, d) # fs) = (if p = q then (p, c) # fs else (q, d) # write_file p c fs)"

text \<open>What the operating system answers to the three calls of one run: each either
  goes through or raises.\<close>

record io =
  mkdir_raises :: "exn option"
  open_raises :: "exn option"
  dump_raises :: "exn option"

text \<open>\<open>Path("data/exploration").mkdir(parents=True, exist_ok=True)\<close> when it goes
  through: the parent and the directory exist afterwards, and one that was there is
  left as it is.\<close>

definition mkdir_parents :: "filesystem \<Rightarrow> filesystem" where
  "mkdir_parents fs =
     fs\<lparr>dirs := List.insert (U ''data/exploration'') (List.insert (U ''data'') (dirs fs))\<rparr>"

text \<open>The clause \<open>except Exception\<close>.\<close>

definition save_handler ::
  "ustr \<Rightarrow> filesystem \<Rightarrow> exn \<Rightarrow> (exn + json) \<times> filesystem \<times> log" where
  "save_handler filepath fs e =
     (if is_Exception e then
        (Inr JNull, fs,
         [(ERROR, [T (U ''Erro ao salvar ''), T filepath, T (U '': ''), E e])])
      else (Inl e, fs, []))"

text \<open>\<open>save_exploration_results(results, filename)\<close>: the value returned (the function
  has no \<open>return\<close>, so \<open>None\<close> whenever it returns) or the exception raised, the file
  system afterwards and the lines logged.\<close>

definition save_exploration_results ::
  "io \<Rightarrow> filesystem \<Rightarrow> json \<Rightarrow> ustr \<Rightarrow> (exn + json) \<times> filesystem \<times> log" where
  "save_exploration_results w fs results filename =
     (case mkdir_raises w of
        Some e \<Rightarrow> (Inl e, fs, [])
      | None \<Rightarrow>
          (let fs1 = mkdir_parents fs;
               filepath = U ''data/exploration/'' @ filename
           in case open_raises w of
                Some e \<Rightarrow> save_handler filepath fs1 e
              | None \<Rightarrow>
                  (case dump_raises w of
                     Some e \<Rightarrow>
                       save_handler filepath
                         (fs1\<lparr>files := write_file filepath Truncated (files fs1)\<rparr>) e
                   | None \<Rightarrow>
                       (Inr JNull,
                        fs1\<lparr>files := write_file filepath (Written results) (files fs1)\<rparr>,
                        [(SUCCESS, [T (U ''Resultados salvos em: ''), T filepath])]))))"

section \<open>Sessions and payloads of the examples\<close>

text \<open>A session that answers every request with status 200 and the given body, and one
  whose \<open>get\<close> raises.\<close>

definition answering :: "json \<Rightarrow> ScryfallExplorer" where
  "answering payload =
     init (\<lambda>url params.
       Inr \<lparr>status_code = 200, raise_for_status = None, json_result = Inr payload\<rparr>)"

definition failing :: "exn \<Rightarrow> ScryfallExplorer" where
  "failing e = init (\<lambda>url params. Inl e)"


text \<open>The entry \<open>k\<close> of the dictionary a call returned.\<close>

definition result_item :: "(exn + json) \<times> log \<Rightarrow> ustr \<Rightarrow> exn + json" where
  "result_item x k = (case fst x of Inl e \<Rightarrow> Inl e | Inr r \<Rightarrow> Inr (item r k))"

text \<open>An empty working directory, and three runs of the operating system: all calls go
  through, \<open>open\<close> raises, \<open>mkdir\<close> raises.\<close>

definition empty_fs :: filesystem where
  "empty_fs = \<lparr>dirs = [], files = []\<rparr>"

definition io_ok :: io where
  "io_ok = \<lparr>mkdir_raises = None, open_raises = None, dump_raises = None\<rparr>"

definition io_open_fails :: io where
  "io_open_fails = \<lparr>mkdir_raises = None, open_raises = Some OSError, dump_raises = None\<rparr>"

definition io_mkdir_fails :: io where
  "io_mkdir_fails = \<lparr>mkdir_raises = Some OSError, open_raises = None, dump_raises = None\<rparr>"

text \<open>\<open>{"data": [{"code": "inr"}]}\<close>: one set, without \<open>set_type\<close>.\<close>

definition no_set_type :: json where
  "no_set_type = JObj [(U ''data'', JArr [JObj [(U ''code'', JStr (U ''inr''))]])]"

text \<open>The \<open>set_info\<close> of a sampled entry.\<close>

fun entry_info :: "json \<Rightarrow> json" where
  "entry_info (JObj kvs) = set_info kvs"
| "entry_info _ = JNull"

text \<open>The set-collection payload of the specification's example:
  \<open>{"data": [{"code": "inr", "set_type": "expansion", "released_at": "2023-01-01"},
  {"code": "mh1", "set_type": "masters", "released_at": "2019-03-15"}]}\<close>.\<close>

definition inr_set :: json where
  "inr_set = JObj [(U ''code'', JStr (U ''inr'')), (U ''set_type'', JStr (U ''expansion'')),
                   (U ''released_at'', JStr (U ''2023-01-01''))]"

definition mh1_set :: json where
  "mh1_set = JObj [(U ''code'', JStr (U ''mh1'')), (U ''set_type'', JStr (U ''masters'')),
                   (U ''released_at'', JStr (U ''2019-03-15''))]"

definition two_sets :: json where
  "two_sets = JObj [(U ''data'', JArr [inr_set, mh1_set])]"

text \<open>
  The invariant of the date range over the truthy release dates \<open>D\<close> seen so far: each
  bound is \<open>None\<close> or truthy, and every string in \<open>D\<close> lies between the two bounds,
  which are then strings.
\<close>

definition spans :: "sets_acc \<Rightarrow> json set \<Rightarrow> bool" where
  "spans acc D \<longleftrightarrow>
     (oldest acc = JNull \<or> truthy (oldest acc))
     \<and> (newest acc = JNull \<or> truthy (newest acc))
     \<and> (\<forall>s. JStr s \<in> D \<longrightarrow>
           (\<exists>x y. oldest acc = JStr x \<and> newest acc = JStr y \<and> x \<le> s \<and> s \<le> y))"

text \<open>\<open>{"data": [{"code": "aaa", "released_at": ""},
  {"code": "bbb", "released_at": "2020-01-01"}]}\<close>: the first release date is the empty
  string.\<close>

definition blank_set :: json where
  "blank_set = JObj [(U ''code'', JStr (U ''aaa'')), (U ''released_at'', JStr [])]"

definition dated_set :: json where
  "dated_set = JObj [(U ''code'', JStr (U ''bbb'')), (U ''released_at'', JStr (U ''2020-01-01''))]"

definition blank_date :: json where
  "blank_date = JObj [(U ''data'', JArr [blank_set, dated_set])]"

text \<open>The truthy release dates of the entries of a list.\<close>

definition dates :: "json list \<Rightarrow> json set" where
  "dates es = {dict_get kvs (U ''released_at'') JNull | kvs.
                 JObj kvs \<in> set es \<and> truthy (dict_get kvs (U ''released_at'') JNull)}"

text \<open>What \<open>s.update(x)\<close> iterates over: the elements of a list, the characters of a
  string, the keys of a dictionary.\<close>

fun iterated :: "json \<Rightarrow> json list" where
  "iterated (JArr xs) = xs"
| "iterated (JStr t) = map (\<lambda>c. JStr [c]) t"
| "iterated (JObj kvs) = map (\<lambda>kv. JStr (fst kv)) kvs"
| "iterated _ = []"

text \<open>The buckets of the sampled cards that have a non-empty string as \<open>type_line\<close>.\<close>

definition type_buckets :: "json list \<Rightarrow> json set" where
  "type_buckets cs = {JStr (bucket t) | t c.
     JObj c \<in> set cs \<and> dict_get c (U ''type_line'') JNull = JStr t \<and> t \<noteq> []}"


text \<open>Three card payloads: a card whose \<open>type_line\<close> is written with a hyphen-minus,
  the same card with an em dash, and the card of the specification's example
  (\<open>{"name": "Bolt", "type_line": "Instant", "rarity": "common", "colors": ["R"],
  "lang": "en"}\<close>).\<close>

definition wizard_hyphen :: json where
  "wizard_hyphen = JObj [(U ''data'', JArr
     [JObj [(U ''name'', JStr (U ''Wizard'')),
            (U ''type_line'', JStr (U ''Creature - Human Wizard''))]])]"

definition wizard_dash :: json where
  "wizard_dash = JObj [(U ''data'', JArr
     [JObj [(U ''name'', JStr (U ''Wizard'')),
            (U ''type_line'', JStr (U ''Creature '' @ [em_dash] @ U '' Human Wizard''))]])]"

definition bolt :: json where
  "bolt = JObj [(U ''data'', JArr
     [JObj [(U ''name'', JStr (U ''Bolt'')), (U ''type_line'', JStr (U ''Instant'')),
            (U ''rarity'', JStr (U ''common'')), (U ''colors'', JArr [JStr (U ''R'')]),
            (U ''lang'', JStr (U ''en''))]])]"

text \<open>
  Entries the loops run through without raising. A set entry is a dictionary whose
  \<open>set_type\<close> is hashable and whose \<open>released_at\<close> is a string or falsy; a card is a
  dictionary whose \<open>type_line\<close> is a string or falsy, whose \<open>rarity\<close> and \<open>lang\<close> are
  hashable or falsy, and whose \<open>colors\<close> is falsy or iterable with hashable elements.
\<close>

fun str_or_falsy :: "json \<Rightarrow> bool" where
  "str_or_falsy (JStr s) = True"
| "str_or_falsy x = (\<not> truthy x)"

fun well_formed_set :: "json \<Rightarrow> bool" where
  "well_formed_set (JObj kvs) =
     (hashable (dict_get kvs (U ''set_type'') JNull)
      \<and> str_or_falsy (dict_get kvs (U ''released_at'') JNull))"
| "well_formed_set _ = False"

fun colors_ok :: "json \<Rightarrow> bool" where
  "colors_ok (JArr xs) = list_all hashable xs"
| "colors_ok (JStr s) = True"
| "colors_ok (JObj kvs) = True"
| "colors_ok x = (\<not> truthy x)"

fun well_formed_card :: "json \<Rightarrow> bool" where
  "well_formed_card (JObj kvs) =
     (str_or_falsy (dict_get kvs (U ''type_line'') JNull)
      \<and> (hashable (dict_get kvs (U ''rarity'') JNull)
           \<or> \<not> truthy (dict_get kvs (U ''rarity'') JNull))
      \<and> colors_ok (dict_get kvs (U ''colors'') JNull)
      \<and> (hashable (dict_get kvs (U ''lang'') JNull)
           \<or> \<not> truthy (dict_get kvs (U ''lang'') JNull)))"
| "well_formed_card _ = False"

text \<open>\<open>{"data": [{"code": "aaa", "released_at": 2023},
  {"code": "bbb", "released_at": "2019-03-15"}]}\<close>: a number and a string as release
  dates.\<close>

definition mixed_dates :: json where
  "mixed_dates = JObj [(U ''data'', JArr
     [JObj [(U ''code'', JStr (U ''aaa'')), (U ''released_at'', JInt 2023)],
      JObj [(U ''code'', JStr (U ''bbb'')), (U ''released_at'', JStr (U ''2019-03-15''))]])]"

text \<open>A bound of the date range that is \<open>None\<close> or a string.\<close>

fun str_bound :: "json \<Rightarrow> bool" where
  "str_bound JNull = True"
| "str_bound (JStr s) = True"
| "str_bound _ = False"

section \<open>Properties\<close>

subsection \<open>The fetch inside the analyzers\<close>

lemma make_request_answering: "fst (make_request (answering p) endpoint params) = Inr p"
  by (simp add: make_request_def answering_def init_def Let_def)

lemma make_request_failing:
  "fst (make_request (failing e) endpoint params) =
     fst (request_handlers (U ''https://api.scryfall.com'' @ endpoint) [] e)"
  by (simp add: make_request_def failing_def init_def Let_def request_handlers_def)

lemma explore_sets_falsy:
  "fst (make_request self (U ''/sets'') JNull) = Inr j \<Longrightarrow> \<not> truthy j \<Longrightarrow>
   fst (explore_sets self limit) = Inr sets_error"
  by (cases "make_request self (U ''/sets'') JNull") (simp add: explore_sets_def)

lemma explore_cards_falsy:
  "fst (make_request self (U ''/cards/search'')
     (JObj [(U ''q'', JStr (U ''set:'' @ set_core)), (U ''page'', JInt 1)])) = Inr j \<Longrightarrow>
   \<not> truthy j \<Longrightarrow>
   fst (explore_cards self set_core limit) = Inr (cards_error set_core)"
  by (cases "make_request self (U ''/cards/search'')
       (JObj [(U ''q'', JStr (U ''set:'' @ set_core)), (U ''page'', JInt 1)])")
     (simp add: explore_cards_def)

text \<open>
  C5. When the fetch fails, that is when \<open>_make_request\<close> returns \<open>None\<close>,
  \<open>explore_sets\<close> and \<open>explore_cards\<close> each return (they do not raise) a dictionary
  whose only key is \<open>error\<close>, with a message in plain words.
\<close>

theorem fetch_failure_error_dict:
  "(fst (make_request self (U ''/sets'') JNull) = Inr JNull \<longrightarrow>
      fst (explore_sets self limit) =
        Inr (JObj [(U ''error'', JStr (U ''Falha ao obter dados dos sets''))]))
   \<and> (fst (make_request self (U ''/cards/search'')
            (JObj [(U ''q'', JStr (U ''set:'' @ set_core)), (U ''page'', JInt 1)]))
         = Inr JNull \<longrightarrow>
      fst (explore_cards self set_core limit) =
        Inr (JObj [(U ''error'', JStr (U ''Falha ao obter cartas do set '' @ set_core))]))"
  using explore_sets_falsy[of self JNull limit] explore_cards_falsy[of self set_core JNull limit]
  by (simp add: sets_error_def cards_error_def)

theorem fetch_failure_error_dict_witness:
  "fst (make_request (failing Timeout) (U ''/sets'') JNull) = Inr JNull
   \<and> fst (explore_sets (failing Timeout) 5) =
        Inr (JObj [(U ''error'', JStr (U ''Falha ao obter dados dos sets''))])
   \<and> fst (make_request (failing Timeout) (U ''/cards/search'')
            (JObj [(U ''q'', JStr (U ''set:'' @ U ''inr'')), (U ''page'', JInt 1)])) = Inr JNull
   \<and> fst (explore_cards (failing Timeout) (U ''inr'') 5) =
        Inr (JObj [(U ''error'', JStr (U ''Falha ao obter cartas do set inr''))])"
  using fetch_failure_error_dict[of "failing Timeout" 5 "U ''inr''"]
  by (simp add: make_request_failing request_handlers_def)

text \<open>
  C10. A fetch that succeeds with a falsy value, the empty object \<open>{}\<close> among them,
  takes the error branch of \<open>explore_sets\<close> and of \<open>explore_cards\<close>: the result is
  the error dictionary, the same as after a fetch that failed.
\<close>

theorem falsy_payload_error_branch:
  assumes "\<not> truthy j"
  shows "(fst (make_request self (U ''/sets'') JNull) = Inr j \<longrightarrow>
            fst (explore_sets self limit) = Inr sets_error
            \<and> fst (explore_sets self limit) = fst (explore_sets (failing ConnectionError) limit))
         \<and> (fst (make_request self (U ''/cards/search'')
                 (JObj [(U ''q'', JStr (U ''set:'' @ set_core)), (U ''page'', JInt 1)]))
               = Inr j \<longrightarrow>
            fst (explore_cards self set_core limit) = Inr (cards_error set_core)
            \<and> fst (explore_cards self set_core limit) =
                fst (explore_cards (failing ConnectionError) set_core limit))"
proof -
  have f: "fst (make_request (failing ConnectionError) endpoint params) = Inr JNull"
    for endpoint params
    by (simp add: make_request_failing request_handlers_def)
  have "fst (explore_sets (failing ConnectionError) limit) = Inr sets_error"
    using explore_sets_falsy[OF f] by simp
  moreover have "fst (explore_cards (failing ConnectionError) set_core limit)
      = Inr (cards_error set_core)"
    using explore_cards_falsy[OF f] by simp
  ultimately show ?thesis
    using assms explore_sets_falsy[of self j limit] explore_cards_falsy[of self set_core j limit]
    by simp
qed

theorem falsy_payload_error_branch_witness:
  "\<not> truthy (JObj [])
   \<and> fst (make_request (answering (JObj [])) (U ''/sets'') JNull) = Inr (JObj [])
   \<and> fst (explore_sets (answering (JObj [])) 5) = Inr sets_error
   \<and> fst (explore_sets (answering (JObj [])) 5) = fst (explore_sets (failing ConnectionError) 5)
   \<and> fst (explore_cards (answering (JObj [])) (U ''inr'') 5) = Inr (cards_error (U ''inr''))
   \<and> fst (explore_cards (answering (JObj [])) (U ''inr'') 5) =
        fst (explore_cards (failing ConnectionError) (U ''inr'') 5)"
  using falsy_payload_error_branch[of "JObj []" "answering (JObj [])" 5 "U ''inr''"]
  by (auto simp: make_request_answering)

subsection \<open>The HTTP client wrapper\<close>




subsection \<open>The result persister\<close>

lemma mkdir_parents_idem: "mkdir_parents (mkdir_parents fs) = mkdir_parents fs"
  by (simp add: mkdir_parents_def)

lemma map_of_write_file: "map_of (write_file p c fs) p = Some c"
  by (induction fs) auto

text \<open>
  C2, as the claim states it, fails: when \<open>open\<close> raises, the persister returns the
  same value (\<open>None\<close>) as when the file was written, so the caller gets no failure
  indicator; and when the creation of the directory raises, the exception reaches the
  caller, since \<open>mkdir\<close> stands before the \<open>try\<close>.
\<close>

theorem save_no_failure_indicator:
  "fst (save_exploration_results io_open_fails empty_fs sets_error (U ''sets_analysis.json''))
     = fst (save_exploration_results io_ok empty_fs sets_error (U ''sets_analysis.json''))
   \<and> fst (save_exploration_results io_mkdir_fails empty_fs sets_error (U ''sets_analysis.json''))
       = Inl OSError"
  by (simp add: save_exploration_results_def io_open_fails_def io_ok_def io_mkdir_fails_def
      save_handler_def Let_def)

text \<open>
  C2, amended. Once \<open>mkdir\<close> has gone through, \<open>data\<close> and \<open>data/exploration\<close> exist
  (and directories that were there are left as they were); an \<open>Exception\<close> raised
  while the file is opened or written is caught: the persister logs one error line
  that carries it and returns \<open>None\<close>, which is also what it returns after a write that
  went through, when the file holds the results.
\<close>

theorem save_catches_write_failure:
  assumes "mkdir_raises w = None"
  shows "U ''data'' \<in> set (dirs (fst (snd (save_exploration_results w fs results filename))))
    \<and> U ''data/exploration'' \<in>
        set (dirs (fst (snd (save_exploration_results w fs results filename))))
    \<and> (U ''data'' \<in> set (dirs fs) \<and> U ''data/exploration'' \<in> set (dirs fs) \<longrightarrow>
         dirs (fst (snd (save_exploration_results w fs results filename))) = dirs fs)
    \<and> ((open_raises w = Some e \<or> open_raises w = None \<and> dump_raises w = Some e)
          \<and> is_Exception e \<longrightarrow>
         fst (save_exploration_results w fs results filename) = Inr JNull
         \<and> snd (snd (save_exploration_results w fs results filename)) =
             [(ERROR, [T (U ''Erro ao salvar ''), T (U ''data/exploration/'' @ filename),
                       T (U '': ''), E e])])
    \<and> (open_raises w = None \<and> dump_raises w = None \<longrightarrow>
         fst (save_exploration_results w fs results filename) = Inr JNull
         \<and> map_of (files (fst (snd (save_exploration_results w fs results filename))))
              (U ''data/exploration/'' @ filename) = Some (Written results))"
  using assms
  by (cases "open_raises w"; cases "dump_raises w")
     (auto simp: save_exploration_results_def save_handler_def Let_def mkdir_parents_def
        map_of_write_file)

theorem save_catches_write_failure_witness:
  "mkdir_raises io_open_fails = None \<and> open_raises io_open_fails = Some OSError
   \<and> is_Exception OSError
   \<and> U ''data/exploration'' \<in>
        set (dirs (fst (snd (save_exploration_results io_open_fails empty_fs sets_error
          (U ''sets_analysis.json'')))))
   \<and> fst (save_exploration_results io_open_fails empty_fs sets_error (U ''sets_analysis.json''))
        = Inr JNull
   \<and> snd (snd (save_exploration_results io_open_fails empty_fs sets_error
          (U ''sets_analysis.json''))) =
        [(ERROR, [T (U ''Erro ao salvar ''), T (U ''data/exploration/sets_analysis.json''),
                  T (U '': ''), E OSError])]"
  using save_catches_write_failure[of io_open_fails empty_fs sets_error
      "U ''sets_analysis.json''" OSError]
  by (simp add: io_open_fails_def)

subsection \<open>The set analyzer\<close>

text \<open>
  C8 does not hold of the code: for a sampled entry without \<open>set_type\<close> the loop adds
  \<open>set_data.get('set_type')\<close>, which is \<open>None\<close>, to \<open>set_types\<close>, so the sequence
  returned holds \<open>None\<close>, which is not a string.
\<close>

theorem explore_sets_missing_set_type:
  "result_item (explore_sets (answering no_set_type) 1) (U ''set_types'') = Inr (JArr [JNull])"
  by (simp add: result_item_def explore_sets_def make_request_def answering_def init_def
      no_set_type_def sets_analysis_def sets_init_def slice_to_def set_add_def dict_get_def
      item_def set_info_def)

lemma date_step_keeps:
  "date_step acc d = Inr acc' \<Longrightarrow>
   sample_sets acc' = sample_sets acc \<and> set_types acc' = set_types acc"
  by (auto simp: date_step_def Let_def split: sum.splits if_splits)

lemma sets_body_sample:
  "sets_body acc e = Inr acc' \<Longrightarrow>
   (\<exists>kvs. e = JObj kvs) \<and> sample_sets acc' = sample_sets acc @ [entry_info e]"
  by (cases e) (auto simp: Let_def split: sum.splits if_splits dest!: date_step_keeps)

lemma sets_loop_sample:
  "sets_loop acc es = Inr acc' \<Longrightarrow> sample_sets acc' = sample_sets acc @ map entry_info es"
proof (induction es arbitrary: acc)
  case Nil
  then show ?case by simp
next
  case (Cons e es)
  from Cons.prems obtain acc1 where b: "sets_body acc e = Inr acc1"
    and l: "sets_loop acc1 es = Inr acc'"
    by (auto split: sum.splits)
  from Cons.IH[OF l] sets_body_sample[OF b] show ?case by simp
qed

lemma explore_sets_truthy:
  "fst (make_request self (U ''/sets'') JNull) = Inr sd \<Longrightarrow> truthy sd \<Longrightarrow>
   fst (explore_sets self limit) = sets_analysis sd limit"
  by (cases "make_request self (U ''/sets'') JNull")
     (simp add: explore_sets_def Let_def split: sum.splits)

lemma length_slice_to:
  "0 \<le> limit \<Longrightarrow> int (length (slice_to xs limit)) = min (int (length xs)) limit"
  by (simp add: slice_to_def)

lemma sets_analysis_list:
  assumes "map_of kvs (U ''data'') = Some (JArr es)"
    and "sets_analysis (JObj kvs) limit = Inr r"
  shows "item r (U ''total_sets'') = JInt (int (length es))
     \<and> elements (item r (U ''sample_sets'')) = map entry_info (slice_to es limit)"
  using assms
  by (auto simp: sets_analysis_def dict_get_def item_def elements_def sets_init_def
      split: sum.splits dest!: sets_loop_sample)

lemma sets_analysis_no_data:
  assumes "map_of kvs (U ''data'') = None"
  shows "sets_analysis (JObj kvs) limit = Inr (JObj
          [(U ''total_sets'', JInt 0),
           (U ''structure_keys'', JArr (map (\<lambda>kv. JStr (fst kv)) kvs)),
           (U ''sample_sets'', JArr []),
           (U ''set_types'', JArr []),
           (U ''date_range'', JObj [(U ''oldest'', JNull), (U ''newest'', JNull)])])"
  using assms
  by (simp add: sets_analysis_def dict_get_def sets_init_def slice_to_def)

text \<open>
  C3, amended. When the fetch returns a non-empty object whose \<open>data\<close> is a list of
  \<open>N\<close> entries, a summary returned by \<open>explore_sets\<close> has \<open>total_sets = N\<close> and
  \<open>sample_sets\<close> holds the \<open>set_info\<close> of the entries of \<open>data[:limit]\<close>, in order;
  for a limit \<open>L \<ge> 0\<close> these are the first \<open>min N L\<close> entries. When \<open>data\<close> is
  absent a summary is returned, with \<open>total_sets = 0\<close> and no sample.
\<close>

theorem explore_sets_counts:
  assumes "fst (make_request self (U ''/sets'') JNull) = Inr (JObj kvs)" and "kvs \<noteq> []"
  shows "(map_of kvs (U ''data'') = Some (JArr es) \<and> fst (explore_sets self limit) = Inr r \<longrightarrow>
            item r (U ''total_sets'') = JInt (int (length es))
          \<and> elements (item r (U ''sample_sets'')) = map entry_info (slice_to es limit)
          \<and> (0 \<le> limit \<longrightarrow>
               slice_to es limit = take (nat limit) es
               \<and> int (length (elements (item r (U ''sample_sets'')))) = min (int (length es)) limit))
       \<and> (map_of kvs (U ''data'') = None \<longrightarrow>
            fst (explore_sets self limit) = Inr (JObj
              [(U ''total_sets'', JInt 0),
               (U ''structure_keys'', JArr (map (\<lambda>kv. JStr (fst kv)) kvs)),
               (U ''sample_sets'', JArr []),
               (U ''set_types'', JArr []),
               (U ''date_range'', JObj [(U ''oldest'', JNull), (U ''newest'', JNull)])]))"
proof -
  have e: "fst (explore_sets self limit) = sets_analysis (JObj kvs) limit"
    using explore_sets_truthy[OF assms(1)] assms(2) by simp
  show ?thesis
    using sets_analysis_list[of kvs es limit r] sets_analysis_no_data[of kvs limit]
      length_slice_to[of limit es]
    by (auto simp: e slice_to_def)
qed

text \<open>The definitions that evaluate \<open>explore_sets\<close> on a given payload.\<close>

lemmas sets_eval = result_item_def explore_sets_def make_request_def answering_def init_def
  sets_analysis_def sets_init_def slice_to_def set_add_def dict_get_def item_def elements_def
  set_info_def date_step_def py_gt_def Let_def

theorem explore_sets_counts_witness:
  "fst (make_request (answering two_sets) (U ''/sets'') JNull) = Inr two_sets
   \<and> item two_sets (U ''data'') = JArr [inr_set, mh1_set]
   \<and> result_item (explore_sets (answering two_sets) 1) (U ''total_sets'') = Inr (JInt 2)
   \<and> result_item (explore_sets (answering two_sets) 1) (U ''sample_sets'')
       = Inr (JArr [entry_info inr_set])"
  using explore_sets_counts[of "answering two_sets" "[(U ''data'', JArr [inr_set, mh1_set])]"
      "[inr_set, mh1_set]" 1]
  by (simp add: sets_eval two_sets_def inr_set_def mh1_set_def)

text \<open>
  C3, as the claim states it, fails for a negative limit: \<open>data[:-1]\<close> is all but the
  last entry, so two entries and the limit \<open>-1\<close> give one sample, not \<open>min 2 (-1)\<close>.
\<close>

theorem explore_sets_negative_limit:
  "result_item (explore_sets (answering two_sets) (- 1)) (U ''sample_sets'')
     = Inr (JArr [entry_info inr_set])
   \<and> item two_sets (U ''data'') = JArr [inr_set, mh1_set]
   \<and> int (length [entry_info inr_set]) \<noteq> min (int (length [inr_set, mh1_set])) (- 1)"
  by (simp add: sets_eval two_sets_def inr_set_def mh1_set_def)

lemma py_lt_JStr_right: "py_lt x (JStr c) = Inr b \<Longrightarrow> \<exists>a. x = JStr a \<and> b = (a < c)"
  by (cases x) (auto split: option.splits)

lemma py_lt_JStr_left: "py_lt (JStr a) y = Inr b \<Longrightarrow> \<exists>c. y = JStr c \<and> b = (a < c)"
  by (cases y) auto

lemma date_step_result:
  assumes "date_step acc d = Inr acc'"
  shows "\<exists>b b'. (if \<not> truthy (oldest acc) then Inr True else py_lt d (oldest acc)) = Inr b
           \<and> (if \<not> truthy (newest acc) then Inr True else py_lt (newest acc) d) = Inr b'
           \<and> oldest acc' = (if b then d else oldest acc)
           \<and> newest acc' = (if b' then d else newest acc)"
proof -
  define A where "A = (if \<not> truthy (oldest acc) then Inr True else py_lt d (oldest acc))"
  define B where "B = (if \<not> truthy (newest acc) then Inr True else py_lt (newest acc) d)"
  have step: "date_step acc d =
      (case A of Inl e \<Rightarrow> Inl e
       | Inr b \<Rightarrow> (case B of Inl e \<Rightarrow> Inl e
           | Inr b' \<Rightarrow> Inr ((if b then acc\<lparr>oldest := d\<rparr> else acc)
                             \<lparr>newest := (if b' then d else newest acc)\<rparr>)))"
    unfolding date_step_def A_def B_def py_gt_def Let_def
    by (cases "if \<not> truthy (oldest acc) then Inr True else py_lt d (oldest acc)";
        cases "if \<not> truthy (newest acc) then Inr True else py_lt (newest acc) d")
       (simp_all split: if_splits)
  from assms step obtain b where b: "A = Inr b" by (cases A) simp_all
  from assms step b obtain b' where b': "B = Inr b'" by (cases B) simp_all
  from assms step b b' have "acc' = (if b then acc\<lparr>oldest := d\<rparr> else acc)
      \<lparr>newest := (if b' then d else newest acc)\<rparr>" by simp
  then have "oldest acc' = (if b then d else oldest acc)"
    "newest acc' = (if b' then d else newest acc)" by simp_all
  with b b' show ?thesis unfolding A_def B_def by blast
qed

lemma date_step_spans:
  assumes "date_step acc d = Inr acc'" and "truthy d" and "spans acc D"
  shows "spans acc' (insert d D)"
proof -
  from date_step_result[OF assms(1)] obtain b b' where
    lo: "(if \<not> truthy (oldest acc) then Inr True else py_lt d (oldest acc)) = Inr b"
    and hi: "(if \<not> truthy (newest acc) then Inr True else py_lt (newest acc) d) = Inr b'"
    and o: "oldest acc' = (if b then d else oldest acc)"
    and n: "newest acc' = (if b' then d else newest acc)"
    by blast
  have nul: "oldest acc = JNull \<or> truthy (oldest acc)" "newest acc = JNull \<or> truthy (newest acc)"
    using assms(3) by (simp_all add: spans_def)
  have old: "\<exists>x y. oldest acc = JStr x \<and> newest acc = JStr y \<and> x \<le> s \<and> s \<le> y"
    if "JStr s \<in> D" for s
    using assms(3) that by (simp add: spans_def)
  have "\<exists>x y. oldest acc' = JStr x \<and> newest acc' = JStr y \<and> x \<le> s \<and> s \<le> y"
    if s: "JStr s \<in> insert d D" for s
  proof (cases "d = JStr s")
    case True
    have "\<exists>x. oldest acc' = JStr x \<and> x \<le> s"
    proof (cases "truthy (oldest acc)")
      case True
      with lo \<open>d = JStr s\<close> have "py_lt (JStr s) (oldest acc) = Inr b" by simp
      from py_lt_JStr_left[OF this] show ?thesis using o \<open>d = JStr s\<close> by auto
    next
      case False
      with lo have "b" by simp
      then show ?thesis using o \<open>d = JStr s\<close> by simp
    qed
    moreover have "\<exists>y. newest acc' = JStr y \<and> s \<le> y"
    proof (cases "truthy (newest acc)")
      case True
      with hi \<open>d = JStr s\<close> have "py_lt (newest acc) (JStr s) = Inr b'" by simp
      from py_lt_JStr_right[OF this] show ?thesis using n \<open>d = JStr s\<close> by auto
    next
      case False
      with hi have "b'" by simp
      then show ?thesis using n \<open>d = JStr s\<close> by simp
    qed
    ultimately show ?thesis by blast
  next
    case False
    with s have "JStr s \<in> D" by simp
    from old[OF this] obtain x y where xy: "oldest acc = JStr x" "newest acc = JStr y"
      "x \<le> s" "s \<le> y" by blast
    have tx: "truthy (oldest acc)" "truthy (newest acc)"
      using nul xy by auto
    from lo tx xy have "py_lt d (JStr x) = Inr b" by simp
    from py_lt_JStr_right[OF this] obtain a where a: "d = JStr a" "b = (a < x)" by blast
    from hi tx xy a have "py_lt (JStr y) (JStr a) = Inr b'" by simp
    then have b': "b' = (y < a)" by simp
    show ?thesis using o n a b' xy by auto
  qed
  moreover have "oldest acc' = JNull \<or> truthy (oldest acc')"
    using o nul assms(2) by auto
  moreover have "newest acc' = JNull \<or> truthy (newest acc')"
    using n nul assms(2) by auto
  ultimately show ?thesis by (simp add: spans_def)
qed

lemma sets_body_dates:
  assumes "sets_body acc (JObj kvs) = Inr acc'"
  shows "if truthy (dict_get kvs (U ''released_at'') JNull)
         then date_step
                (acc\<lparr>sample_sets := sample_sets acc @ [set_info kvs],
                     set_types := projr (set_add (set_types acc)
                       (dict_get kvs (U ''set_type'') JNull))\<rparr>)
                (dict_get kvs (U ''released_at'') JNull) = Inr acc'
         else oldest acc' = oldest acc \<and> newest acc' = newest acc"
  using assms by (auto simp: Let_def split: sum.splits if_splits)

lemma spans_cong: "spans acc D \<Longrightarrow> oldest acc1 = oldest acc \<Longrightarrow> newest acc1 = newest acc \<Longrightarrow> spans acc1 D"
  by (simp add: spans_def)

lemma sets_body_spans:
  assumes "sets_body acc e = Inr acc'" and "spans acc D"
  shows "spans acc' (D \<union> dates [e])"
proof (cases e)
  case (JObj kvs)
  show ?thesis
  proof (cases "truthy (dict_get kvs (U ''released_at'') JNull)")
    case True
    define acc1 where "acc1 = acc\<lparr>sample_sets := sample_sets acc @ [set_info kvs],
        set_types := projr (set_add (set_types acc) (dict_get kvs (U ''set_type'') JNull))\<rparr>"
    have a: "oldest acc1 = oldest acc" "newest acc1 = newest acc"
      "date_step acc1 (dict_get kvs (U ''released_at'') JNull) = Inr acc'"
      using sets_body_dates[of acc kvs acc'] assms(1) JObj True by (simp_all add: acc1_def)
    have "spans acc1 D" using spans_cong[OF assms(2) a(1,2)] .
    from date_step_spans[OF a(3) True this] show ?thesis
      using JObj True by (simp add: dates_def)
  next
    case False
    with sets_body_dates[of acc kvs acc'] assms(1) JObj
    have "oldest acc' = oldest acc" "newest acc' = newest acc" by auto
    from spans_cong[OF assms(2) this] show ?thesis
      using JObj False by (simp add: dates_def)
  qed
qed (use assms in auto)

lemma dates_Cons: "dates (e # es) = dates [e] \<union> dates es"
  by (auto simp: dates_def)

lemma sets_loop_spans:
  "sets_loop acc es = Inr acc' \<Longrightarrow> spans acc D \<Longrightarrow> spans acc' (D \<union> dates es)"
proof (induction es arbitrary: acc D)
  case Nil
  then show ?case by (simp add: dates_def)
next
  case (Cons e es)
  from Cons.prems(1) obtain acc1 where b: "sets_body acc e = Inr acc1"
    and l: "sets_loop acc1 es = Inr acc'"
    by (auto split: sum.splits)
  from Cons.IH[OF l sets_body_spans[OF b Cons.prems(2)]] show ?case
    by (simp add: dates_Cons[of e es] Un_assoc)
qed

lemma spans_init: "spans sets_init {}"
  by (simp add: spans_def sets_init_def)

lemma sets_analysis_Inr:
  assumes "sets_analysis (JObj kvs) limit = Inr r"
  shows "\<exists>n es acc. py_len (dict_get kvs (U ''data'') (JArr [])) = Inr n
     \<and> sampled (dict_get kvs (U ''data'') (JArr [])) limit = Inr es
     \<and> sets_loop sets_init es = Inr acc
     \<and> r = JObj
          [(U ''total_sets'', JInt n),
           (U ''structure_keys'', JArr (map (\<lambda>kv. JStr (fst kv)) kvs)),
           (U ''sample_sets'', JArr (sample_sets acc)),
           (U ''set_types'', JArr (set_types acc)),
           (U ''date_range'',
              JObj [(U ''oldest'', oldest acc), (U ''newest'', newest acc)])]"
  using assms by (simp add: sets_analysis_def split: sum.splits)

lemma date_range_items:
  "item (item (JObj
          [(U ''total_sets'', a), (U ''structure_keys'', b), (U ''sample_sets'', c),
           (U ''set_types'', d),
           (U ''date_range'', JObj [(U ''oldest'', x), (U ''newest'', y)])])
        (U ''date_range'')) (U ''oldest'') = x"
  "item (item (JObj
          [(U ''total_sets'', a), (U ''structure_keys'', b), (U ''sample_sets'', c),
           (U ''set_types'', d),
           (U ''date_range'', JObj [(U ''oldest'', x), (U ''newest'', y)])])
        (U ''date_range'')) (U ''newest'') = y"
  by (simp_all add: item_def dict_get_def)

lemma sets_analysis_dates:
  assumes "sets_analysis (JObj kvs) limit = Inr r"
    and "sampled (dict_get kvs (U ''data'') (JArr [])) limit = Inr es"
  shows "\<exists>acc. sets_loop sets_init es = Inr acc
     \<and> item (item r (U ''date_range'')) (U ''oldest'') = oldest acc
     \<and> item (item r (U ''date_range'')) (U ''newest'') = newest acc"
proof -
  from sets_analysis_Inr[OF assms(1)] assms(2) obtain n acc where
    "sets_loop sets_init es = Inr acc"
    "r = JObj
          [(U ''total_sets'', JInt n),
           (U ''structure_keys'', JArr (map (\<lambda>kv. JStr (fst kv)) kvs)),
           (U ''sample_sets'', JArr (sample_sets acc)),
           (U ''set_types'', JArr (set_types acc)),
           (U ''date_range'',
              JObj [(U ''oldest'', oldest acc), (U ''newest'', newest acc)])]"
    by auto
  then show ?thesis by (simp only: date_range_items) simp
qed


lemma sampled_no_data: "sampled (dict_get [] k (JArr [])) limit = Inr es \<Longrightarrow> es = []"
  by (auto simp: dict_get_def slice_to_def split: if_splits)

text \<open>
  C4, amended. In a summary returned by \<open>explore_sets\<close>, \<open>date_range.oldest\<close> and
  \<open>date_range.newest\<close> are strings with \<open>oldest \<le> d \<le> newest\<close> (lexicographic order)
  for every non-empty string \<open>d\<close> that is the \<open>released_at\<close> of a sampled entry; and a
  turn of the loop on an entry whose \<open>released_at\<close> is absent, \<open>None\<close> or empty (not
  truthy) leaves \<open>oldest\<close> and \<open>newest\<close> as they were.
\<close>

theorem explore_sets_date_range:
  "(fst (make_request self (U ''/sets'') JNull) = Inr (JObj kvs)
     \<and> sampled (dict_get kvs (U ''data'') (JArr [])) limit = Inr es
     \<and> fst (explore_sets self limit) = Inr r
     \<and> JObj entry \<in> set es \<and> dict_get entry (U ''released_at'') JNull = JStr d \<and> d \<noteq> []
    \<longrightarrow> (\<exists>x y. item (item r (U ''date_range'')) (U ''oldest'') = JStr x
             \<and> item (item r (U ''date_range'')) (U ''newest'') = JStr y \<and> x \<le> d \<and> d \<le> y))
   \<and> (\<not> truthy (dict_get entry' (U ''released_at'') JNull)
       \<and> sets_body acc (JObj entry') = Inr acc'
       \<longrightarrow> oldest acc' = oldest acc \<and> newest acc' = newest acc)"
proof (intro conjI impI)
  assume a: "fst (make_request self (U ''/sets'') JNull) = Inr (JObj kvs)
     \<and> sampled (dict_get kvs (U ''data'') (JArr [])) limit = Inr es
     \<and> fst (explore_sets self limit) = Inr r
     \<and> JObj entry \<in> set es \<and> dict_get entry (U ''released_at'') JNull = JStr d \<and> d \<noteq> []"
  then have ne: "kvs \<noteq> []" using sampled_no_data[of "U ''data''" limit es] by auto
  with a have "sets_analysis (JObj kvs) limit = Inr r"
    using explore_sets_truthy[of self "JObj kvs" limit] by simp
  from sets_analysis_dates[OF this] a obtain acc where
    l: "sets_loop sets_init es = Inr acc"
    and o: "item (item r (U ''date_range'')) (U ''oldest'') = oldest acc"
    and n: "item (item r (U ''date_range'')) (U ''newest'') = newest acc"
    by blast
  from sets_loop_spans[OF l spans_init] have sp: "spans acc (dates es)" by simp
  have "JStr d \<in> dates es"
    using a by (auto simp: dates_def intro!: exI[of _ entry])
  with sp show "\<exists>x y. item (item r (U ''date_range'')) (U ''oldest'') = JStr x
             \<and> item (item r (U ''date_range'')) (U ''newest'') = JStr y \<and> x \<le> d \<and> d \<le> y"
    unfolding o n by (simp add: spans_def)
next
  assume "\<not> truthy (dict_get entry' (U ''released_at'') JNull)
       \<and> sets_body acc (JObj entry') = Inr acc'"
  then show "oldest acc' = oldest acc" "newest acc' = newest acc"
    using sets_body_dates[of acc entry' acc'] by simp_all
qed

theorem explore_sets_date_range_witness:
  "fst (make_request (answering two_sets) (U ''/sets'') JNull) = Inr two_sets
   \<and> item two_sets (U ''data'') = JArr [inr_set, mh1_set]
   \<and> item mh1_set (U ''released_at'') = JStr (U ''2019-03-15'')
   \<and> result_item (explore_sets (answering two_sets) 2) (U ''date_range'')
       = Inr (JObj [(U ''oldest'', JStr (U ''2019-03-15'')),
                    (U ''newest'', JStr (U ''2023-01-01''))])
   \<and> (\<exists>x y. result_item (explore_sets (answering two_sets) 2) (U ''date_range'')
                = Inr (JObj [(U ''oldest'', JStr x), (U ''newest'', JStr y)])
             \<and> x \<le> U ''2019-03-15'' \<and> U ''2019-03-15'' \<le> y)"
proof -
  define r where "r = projr (fst (explore_sets (answering two_sets) 2))"
  have m: "fst (make_request (answering two_sets) (U ''/sets'') JNull)
      = Inr (JObj [(U ''data'', JArr [inr_set, mh1_set])])"
    by (simp add: make_request_answering two_sets_def)
  have s: "sampled (dict_get [(U ''data'', JArr [inr_set, mh1_set])] (U ''data'') (JArr [])) 2
      = Inr [inr_set, mh1_set]"
    by (simp add: dict_get_def slice_to_def)
  have e: "fst (explore_sets (answering two_sets) 2) = Inr r"
    unfolding r_def by (simp add: sets_eval two_sets_def inr_set_def mh1_set_def)
  have d: "result_item (explore_sets (answering two_sets) 2) (U ''date_range'')
       = Inr (JObj [(U ''oldest'', JStr (U ''2019-03-15'')),
                    (U ''newest'', JStr (U ''2023-01-01''))])"
    by (simp add: sets_eval two_sets_def inr_set_def mh1_set_def)
  have i: "JObj [(U ''code'', JStr (U ''mh1'')), (U ''set_type'', JStr (U ''masters'')),
        (U ''released_at'', JStr (U ''2019-03-15''))] \<in> set [inr_set, mh1_set]"
    by (simp add: mh1_set_def)
  have g: "dict_get [(U ''code'', JStr (U ''mh1'')), (U ''set_type'', JStr (U ''masters'')),
        (U ''released_at'', JStr (U ''2019-03-15''))] (U ''released_at'') JNull
      = JStr (U ''2019-03-15'')"
    by (simp add: dict_get_def)
  from explore_sets_date_range[of "answering two_sets" "[(U ''data'', JArr [inr_set, mh1_set])]"
      2 "[inr_set, mh1_set]" r
      "[(U ''code'', JStr (U ''mh1'')), (U ''set_type'', JStr (U ''masters'')),
        (U ''released_at'', JStr (U ''2019-03-15''))]" "U ''2019-03-15''",
      THEN conjunct1] m s e i g
  obtain x y where xy: "item (item r (U ''date_range'')) (U ''oldest'') = JStr x"
    "item (item r (U ''date_range'')) (U ''newest'') = JStr y"
    "x \<le> U ''2019-03-15''" "U ''2019-03-15'' \<le> y"
    by blast
  from d e have "item r (U ''date_range'') = JObj [(U ''oldest'', JStr (U ''2019-03-15'')),
                    (U ''newest'', JStr (U ''2023-01-01''))]"
    by (simp add: result_item_def)
  with xy have "x = U ''2019-03-15''" "y = U ''2023-01-01''"
    by (simp_all add: item_def dict_get_def)
  with xy d have "\<exists>x y. result_item (explore_sets (answering two_sets) 2) (U ''date_range'')
                = Inr (JObj [(U ''oldest'', JStr x), (U ''newest'', JStr y)])
             \<and> x \<le> U ''2019-03-15'' \<and> U ''2019-03-15'' \<le> y"
    by blast
  moreover have "item two_sets (U ''data'') = JArr [inr_set, mh1_set]"
    "item mh1_set (U ''released_at'') = JStr (U ''2019-03-15'')"
    by (simp_all add: item_def dict_get_def two_sets_def mh1_set_def)
  ultimately show ?thesis using m d by (simp add: two_sets_def)
qed

text \<open>
  C4, as the claim states it, fails for the empty string: it is a non-null
  \<open>released_at\<close> string, the loop skips it (\<open>if release_date:\<close>), and \<open>oldest\<close> is not
  below it.
\<close>

theorem explore_sets_blank_date:
  "item blank_date (U ''data'') = JArr [blank_set, dated_set]
   \<and> item blank_set (U ''released_at'') = JStr []
   \<and> result_item (explore_sets (answering blank_date) 2) (U ''date_range'')
       = Inr (JObj [(U ''oldest'', JStr (U ''2020-01-01'')),
                    (U ''newest'', JStr (U ''2020-01-01''))])
   \<and> \<not> (U ''2020-01-01'' \<le> ([] :: ustr))"
  by (simp add: sets_eval blank_date_def blank_set_def dated_set_def)

subsection \<open>The card analyzer\<close>

lemma py_eq_JStr: "py_eq y (JStr t) \<longleftrightarrow> y = JStr t"
  by (cases y) auto


lemma set_add_JStr:
  "set_add s (JStr t) = Inr (if JStr t \<in> set s then s else s @ [JStr t])"
  by (simp add: set_add_def list_ex_iff py_eq_JStr)






lemma add_card_type_props:
  assumes "add_card_type s v = Inr s'"
  shows "if truthy v then \<exists>t. v = JStr t \<and> t \<noteq> [] \<and> set s' = insert (JStr (bucket t)) (set s)
         else s' = s"
  using assms
  by (cases v) (auto simp: add_card_type_def set_add_JStr split: if_splits)

lemma cards_body_fields:
  assumes "cards_body acc (JObj c) = Inr acc'"
  shows "add_card_type (card_types acc) (dict_get c (U ''type_line'') JNull)
           = Inr (card_types acc')"
    and "update_if (colors acc) (dict_get c (U ''colors'') JNull) = Inr (colors acc')"
  using assms by (auto split: sum.splits)


lemma type_buckets_Cons: "type_buckets (x # cs) = type_buckets [x] \<union> type_buckets cs"
  by (auto simp: type_buckets_def)


lemma type_buckets_single_str:
  "dict_get c (U ''type_line'') JNull = JStr t \<Longrightarrow> t \<noteq> [] \<Longrightarrow>
   type_buckets [JObj c] = {JStr (bucket t)}"
  by (simp add: type_buckets_def)

lemma type_buckets_single_none:
  "\<not> truthy (dict_get c (U ''type_line'') JNull) \<Longrightarrow> type_buckets [JObj c] = {}"
  by (auto simp: type_buckets_def)

lemma cards_body_types:
  assumes "cards_body acc x = Inr acc'"
  shows "set (card_types acc') = set (card_types acc) \<union> type_buckets [x]"
proof -
  from assms obtain c where x: "x = JObj c" by (cases x) simp_all
  note p = add_card_type_props[OF cards_body_fields(1)[OF assms[unfolded x]]]
  show ?thesis
  proof (cases "truthy (dict_get c (U ''type_line'') JNull)")
    case True
    with p obtain t where t: "dict_get c (U ''type_line'') JNull = JStr t" "t \<noteq> []"
      "set (card_types acc') = insert (JStr (bucket t)) (set (card_types acc))"
      by auto
    from type_buckets_single_str[OF t(1,2)] t(3) show ?thesis unfolding x by simp
  next
    case False
    with p have "card_types acc' = card_types acc" by simp
    with type_buckets_single_none[OF False] show ?thesis unfolding x by simp
  qed
qed

lemma cards_loop_types:
  "cards_loop acc cs = Inr acc' \<Longrightarrow>
   set (card_types acc') = set (card_types acc) \<union> type_buckets cs"
proof (induction cs arbitrary: acc)
  case Nil
  then show ?case by (simp add: type_buckets_def)
next
  case (Cons x cs)
  from Cons.prems obtain acc1 where b: "cards_body acc x = Inr acc1"
    and l: "cards_loop acc1 cs = Inr acc'"
    by (auto split: sum.splits)
  from Cons.IH[OF l] cards_body_types[OF b] show ?case
    by (simp add: type_buckets_Cons[of x cs] Un_assoc)
qed



lemma explore_cards_truthy:
  "fst (make_request self (U ''/cards/search'')
     (JObj [(U ''q'', JStr (U ''set:'' @ set_core)), (U ''page'', JInt 1)])) = Inr cd \<Longrightarrow>
   truthy cd \<Longrightarrow>
   fst (explore_cards self set_core limit) = cards_analysis cd limit"
  by (cases "make_request self (U ''/cards/search'')
       (JObj [(U ''q'', JStr (U ''set:'' @ set_core)), (U ''page'', JInt 1)])")
     (simp add: explore_cards_def Let_def split: sum.splits)

lemma cards_analysis_Inr:
  assumes "cards_analysis (JObj kvs) limit = Inr r"
  shows "\<exists>cs acc. sampled (dict_get kvs (U ''data'') (JArr [])) limit = Inr cs
     \<and> cards_loop cards_init cs = Inr acc
     \<and> r = JObj
          [(U ''total_cards'', dict_get kvs (U ''total_cards'') (JInt 0)),
           (U ''has_more'', dict_get kvs (U ''has_more'') (JBool False)),
           (U ''structure_keys'', JArr (map (\<lambda>kv. JStr (fst kv)) kvs)),
           (U ''sample_cards'', JArr (sample_cards acc)),
           (U ''card_types'', JArr (card_types acc)),
           (U ''colors'', JArr (colors acc)),
           (U ''rarities'', JArr (rarities acc)),
           (U ''languages'', JArr (languages acc))]"
  using assms by (simp add: cards_analysis_def split: sum.splits)

lemma cards_items:
  "elements (item (JObj
          [(U ''total_cards'', a), (U ''has_more'', b), (U ''structure_keys'', c),
           (U ''sample_cards'', d), (U ''card_types'', JArr ts), (U ''colors'', JArr cl),
           (U ''rarities'', e), (U ''languages'', f)]) (U ''card_types'')) = ts"
  "elements (item (JObj
          [(U ''total_cards'', a), (U ''has_more'', b), (U ''structure_keys'', c),
           (U ''sample_cards'', d), (U ''card_types'', JArr ts), (U ''colors'', JArr cl),
           (U ''rarities'', e), (U ''languages'', f)]) (U ''colors'')) = cl"
  by (simp_all add: item_def dict_get_def elements_def)

text \<open>What a summary returned by \<open>explore_cards\<close> holds, in terms of the loop.\<close>

lemma explore_cards_summary:
  assumes "fst (make_request self (U ''/cards/search'')
       (JObj [(U ''q'', JStr (U ''set:'' @ set_core)), (U ''page'', JInt 1)])) = Inr (JObj kvs)"
    and "sampled (dict_get kvs (U ''data'') (JArr [])) limit = Inr cs"
    and "fst (explore_cards self set_core limit) = Inr r"
  shows "cs = [] \<and> elements (item r (U ''card_types'')) = []
           \<and> elements (item r (U ''colors'')) = []
         \<or> (\<exists>acc. cards_loop cards_init cs = Inr acc
              \<and> elements (item r (U ''card_types'')) = card_types acc
              \<and> elements (item r (U ''colors'')) = colors acc)"
proof (cases "kvs = []")
  case True
  then have "\<not> truthy (JObj kvs)" by simp
  from explore_cards_falsy[OF assms(1) this, of limit] assms(3)
  have "r = cards_error set_core" by simp
  moreover from assms(2) True have "cs = []" using sampled_no_data by blast
  ultimately show ?thesis by (simp add: cards_error_def item_def dict_get_def elements_def)
next
  case False
  then have "truthy (JObj kvs)" by simp
  from explore_cards_truthy[OF assms(1) this, of limit] assms(3)
  have "cards_analysis (JObj kvs) limit = Inr r" by simp
  from cards_analysis_Inr[OF this] assms(2) obtain acc where
    l: "cards_loop cards_init cs = Inr acc" and
    r: "r = JObj
          [(U ''total_cards'', dict_get kvs (U ''total_cards'') (JInt 0)),
           (U ''has_more'', dict_get kvs (U ''has_more'') (JBool False)),
           (U ''structure_keys'', JArr (map (\<lambda>kv. JStr (fst kv)) kvs)),
           (U ''sample_cards'', JArr (sample_cards acc)),
           (U ''card_types'', JArr (card_types acc)),
           (U ''colors'', JArr (colors acc)),
           (U ''rarities'', JArr (rarities acc)),
           (U ''languages'', JArr (languages acc))]"
    by auto
  show ?thesis using l unfolding r by (simp only: cards_items) blast
qed


lemma set_strip: "set (strip u) \<subseteq> set u"
proof -
  have "set (dropWhile is_space (rev (dropWhile is_space u))) \<subseteq> set (rev (dropWhile is_space u))"
    by (meson set_dropWhileD subsetI)
  moreover have "set (dropWhile is_space u) \<subseteq> set u"
    by (meson set_dropWhileD subsetI)
  ultimately show ?thesis by (auto simp: strip_def)
qed

lemma split_first_prefix:
  "t = split_first t @ dropWhile (\<lambda>c. c \<noteq> hyphen) t
   \<and> hyphen \<notin> set (split_first t)
   \<and> (dropWhile (\<lambda>c. c \<noteq> hyphen) t = [] \<or> hd (dropWhile (\<lambda>c. c \<noteq> hyphen) t) = hyphen)"
proof -
  have "hyphen \<notin> set (takeWhile (\<lambda>c. c \<noteq> hyphen) t)"
    using set_takeWhileD by fastforce
  moreover have "dropWhile (\<lambda>c. c \<noteq> hyphen) t = []
      \<or> hd (dropWhile (\<lambda>c. c \<noteq> hyphen) t) = hyphen"
    using hd_dropWhile[of "\<lambda>c. c \<noteq> hyphen" t] by auto
  ultimately show ?thesis by (simp add: split_first_def)
qed

lemma bucket_no_hyphen: "hyphen \<notin> set (bucket t)"
  using set_strip[of "split_first t"] split_first_prefix[of t] by (auto simp: bucket_def)

text \<open>The definitions that evaluate \<open>explore_cards\<close> on a given payload.\<close>

lemmas cards_eval = result_item_def explore_cards_def make_request_def answering_def init_def
  cards_analysis_def cards_init_def slice_to_def set_add_def dict_get_def item_def elements_def
  card_info_def add_card_type_def add_if_def update_if_def bucket_def strip_def split_first_def
  is_space_def hyphen_def em_dash_def Let_def

text \<open>
  C1, amended. In a summary returned by \<open>explore_cards\<close>, the elements of \<open>card_types\<close>
  are exactly the strings \<open>type_line.split('-')[0].strip()\<close> of the sampled cards whose
  \<open>type_line\<close> is a non-empty string: the whitespace-trimmed part before the first
  hyphen-minus (U+002D). No element contains a hyphen-minus, and a card without
  \<open>type_line\<close> leaves \<open>card_types\<close> as it was. So \<open>Creature - Human Wizard\<close> buckets to
  \<open>Creature\<close>; the em dash (U+2014) is no separator, and the same type line written
  with an em dash is its own bucket.
\<close>

theorem explore_cards_card_types:
  "(fst (make_request self (U ''/cards/search'')
        (JObj [(U ''q'', JStr (U ''set:'' @ set_core)), (U ''page'', JInt 1)])) = Inr (JObj kvs)
     \<and> sampled (dict_get kvs (U ''data'') (JArr [])) limit = Inr cs
     \<and> fst (explore_cards self set_core limit) = Inr r
    \<longrightarrow> set (elements (item r (U ''card_types''))) =
          {JStr (bucket t) | t c. JObj c \<in> set cs
             \<and> dict_get c (U ''type_line'') JNull = JStr t \<and> t \<noteq> []}
        \<and> (\<forall>x\<in>set (elements (item r (U ''card_types''))).
              \<exists>b. x = JStr b \<and> hyphen \<notin> set b))
   \<and> (map_of c' (U ''type_line'') = None \<and> cards_body acc (JObj c') = Inr acc'
        \<longrightarrow> card_types acc' = card_types acc)
   \<and> bucket t' = strip (takeWhile (\<lambda>x. x \<noteq> hyphen) t')
   \<and> bucket (U ''Creature - Human Wizard'') = U ''Creature''
   \<and> bucket (U ''Creature '' @ [em_dash] @ U '' Human Wizard'')
        = U ''Creature '' @ [em_dash] @ U '' Human Wizard''"
proof (intro conjI impI)
  assume a: "fst (make_request self (U ''/cards/search'')
        (JObj [(U ''q'', JStr (U ''set:'' @ set_core)), (U ''page'', JInt 1)])) = Inr (JObj kvs)
     \<and> sampled (dict_get kvs (U ''data'') (JArr [])) limit = Inr cs
     \<and> fst (explore_cards self set_core limit) = Inr r"
  have eq: "set (elements (item r (U ''card_types''))) = type_buckets cs"
  proof -
    from a explore_cards_summary[of self set_core kvs limit cs r]
    consider "cs = []" "elements (item r (U ''card_types'')) = []"
      | acc where "cards_loop cards_init cs = Inr acc"
          "elements (item r (U ''card_types'')) = card_types acc"
      by blast
    then show ?thesis
    proof cases
      case 1
      then show ?thesis by (simp add: type_buckets_def)
    next
      case 2
      from cards_loop_types[OF 2(1)] 2(2) show ?thesis by (simp add: cards_init_def)
    qed
  qed
  then show "set (elements (item r (U ''card_types''))) =
          {JStr (bucket t) | t c. JObj c \<in> set cs
             \<and> dict_get c (U ''type_line'') JNull = JStr t \<and> t \<noteq> []}"
    by (simp add: type_buckets_def)
  show "\<forall>x\<in>set (elements (item r (U ''card_types''))). \<exists>b. x = JStr b \<and> hyphen \<notin> set b"
    unfolding eq using bucket_no_hyphen by (auto simp: type_buckets_def)
next
  assume h: "map_of c' (U ''type_line'') = None \<and> cards_body acc (JObj c') = Inr acc'"
  then have b: "cards_body acc (JObj c') = Inr acc'" by blast
  from h have "map_of c' (U ''type_line'') = None" by blast
  then have g: "dict_get c' (U ''type_line'') JNull = JNull" by (simp add: dict_get_def)
  from add_card_type_props[OF cards_body_fields(1)[OF b]] g
  show "card_types acc' = card_types acc" by simp
next
  show "bucket t' = strip (takeWhile (\<lambda>x. x \<noteq> hyphen) t')"
    by (simp add: bucket_def split_first_def)
  show "bucket (U ''Creature - Human Wizard'') = U ''Creature''"
    by (simp add: bucket_def strip_def split_first_def is_space_def hyphen_def)
  show "bucket (U ''Creature '' @ [em_dash] @ U '' Human Wizard'')
        = U ''Creature '' @ [em_dash] @ U '' Human Wizard''"
    by (simp add: bucket_def strip_def split_first_def is_space_def hyphen_def em_dash_def)
qed

text \<open>
  C1, as the claim states it, fails: the only separator of the code is the hyphen-minus,
  so the type line written with an em dash is kept whole; the bucket is not
  \<open>Creature\<close> and it contains the dash.
\<close>

theorem explore_cards_em_dash:
  "result_item (explore_cards (answering wizard_dash) (U ''inr'') 5) (U ''card_types'')
     = Inr (JArr [JStr (U ''Creature '' @ [em_dash] @ U '' Human Wizard'')])
   \<and> em_dash \<in> set (U ''Creature '' @ [em_dash] @ U '' Human Wizard'')
   \<and> U ''Creature '' @ [em_dash] @ U '' Human Wizard'' \<noteq> U ''Creature''"
  by (simp add: cards_eval wizard_dash_def)

theorem explore_cards_card_types_witness:
  "fst (make_request (answering wizard_hyphen) (U ''/cards/search'')
        (JObj [(U ''q'', JStr (U ''set:'' @ U ''inr'')), (U ''page'', JInt 1)]))
     = Inr wizard_hyphen
   \<and> result_item (explore_cards (answering wizard_hyphen) (U ''inr'') 5) (U ''card_types'')
       = Inr (JArr [JStr (U ''Creature'')])
   \<and> hyphen \<notin> set (U ''Creature'')
   \<and> bucket (U ''Creature - Human Wizard'') = U ''Creature''"
proof -
  define r where "r = projr (fst (explore_cards (answering wizard_hyphen) (U ''inr'') 5))"
  define c where "c = [(U ''name'', JStr (U ''Wizard'')),
            (U ''type_line'', JStr (U ''Creature - Human Wizard''))]"
  have m: "fst (make_request (answering wizard_hyphen) (U ''/cards/search'')
        (JObj [(U ''q'', JStr (U ''set:'' @ U ''inr'')), (U ''page'', JInt 1)]))
     = Inr (JObj [(U ''data'', JArr [JObj c])])"
    by (simp add: make_request_answering wizard_hyphen_def c_def)
  have s: "sampled (dict_get [(U ''data'', JArr [JObj c])] (U ''data'') (JArr [])) 5
      = Inr [JObj c]"
    by (simp add: dict_get_def slice_to_def)
  have d: "result_item (explore_cards (answering wizard_hyphen) (U ''inr'') 5) (U ''card_types'')
       = Inr (JArr [JStr (U ''Creature'')])"
    by (simp add: cards_eval wizard_hyphen_def)
  have e: "fst (explore_cards (answering wizard_hyphen) (U ''inr'') 5) = Inr r"
    unfolding r_def by (simp add: cards_eval wizard_hyphen_def)
  from d e have i: "elements (item r (U ''card_types'')) = [JStr (U ''Creature'')]"
    by (simp add: result_item_def elements_def)
  note t = explore_cards_card_types[of "answering wizard_hyphen" "U ''inr''"
      "[(U ''data'', JArr [JObj c])]" 5 "[JObj c]" r]
  from t[THEN conjunct1] m s e
  have "\<forall>x\<in>set (elements (item r (U ''card_types''))). \<exists>b. x = JStr b \<and> hyphen \<notin> set b"
    by blast
  with i have "hyphen \<notin> set (U ''Creature'')" by simp
  moreover from t[THEN conjunct2]
  have "bucket (U ''Creature - Human Wizard'') = U ''Creature''" by blast
  ultimately show ?thesis using m d by (simp add: wizard_hyphen_def c_def)
qed




subsection \<open>When the analyzers return\<close>

lemma set_add_ok: "hashable x \<Longrightarrow> \<exists>s'. set_add s x = Inr s'"
  by (simp add: set_add_def)

lemma set_add_all_ok: "list_all hashable xs \<Longrightarrow> \<exists>s'. set_add_all s xs = Inr s'"
proof (induction xs arbitrary: s)
  case Nil
  then show ?case by simp
next
  case (Cons x xs)
  then obtain s1 where "set_add s x = Inr s1" using set_add_ok[of x s] by auto
  with Cons show ?case by simp
qed

lemma date_step_unfold:
  "date_step acc d =
      (case (if \<not> truthy (oldest acc) then Inr True else py_lt d (oldest acc)) of
         Inl e \<Rightarrow> Inl e
       | Inr b \<Rightarrow>
           (case (if \<not> truthy (newest acc) then Inr True else py_lt (newest acc) d) of
              Inl e \<Rightarrow> Inl e
            | Inr b' \<Rightarrow> Inr ((if b then acc\<lparr>oldest := d\<rparr> else acc)
                             \<lparr>newest := (if b' then d else newest acc)\<rparr>)))"
  unfolding date_step_def py_gt_def Let_def
  by (cases "if \<not> truthy (oldest acc) then Inr True else py_lt d (oldest acc)";
      cases "if \<not> truthy (newest acc) then Inr True else py_lt (newest acc) d")
     (simp_all split: if_splits)

lemma date_step_ok:
  assumes "str_bound (oldest acc)" and "str_bound (newest acc)"
  shows "\<exists>acc'. date_step acc (JStr s) = Inr acc'
           \<and> str_bound (oldest acc') \<and> str_bound (newest acc')"
proof -
  have "\<exists>b. (if \<not> truthy (oldest acc) then Inr True
      else py_lt (JStr s) (oldest acc)) = Inr b"
    using assms(1) by (cases "oldest acc") auto
  then obtain b where b: "(if \<not> truthy (oldest acc) then Inr True
      else py_lt (JStr s) (oldest acc)) = Inr b" ..
  have "\<exists>b'. (if \<not> truthy (newest acc) then Inr True
      else py_lt (newest acc) (JStr s)) = Inr b'"
    using assms(2) by (cases "newest acc") auto
  then obtain b' where b': "(if \<not> truthy (newest acc) then Inr True
      else py_lt (newest acc) (JStr s)) = Inr b'" ..
  have "date_step acc (JStr s) =
      Inr ((if b then acc\<lparr>oldest := JStr s\<rparr> else acc)
             \<lparr>newest := (if b' then JStr s else newest acc)\<rparr>)"
    unfolding date_step_unfold b b' by simp
  then show ?thesis using assms by auto
qed

lemma sets_body_ok:
  assumes "well_formed_set e" and "str_bound (oldest acc)" and "str_bound (newest acc)"
  shows "\<exists>acc'. sets_body acc e = Inr acc' \<and> str_bound (oldest acc') \<and> str_bound (newest acc')"
proof -
  from assms(1) obtain kvs where e: "e = JObj kvs" by (cases e) simp_all
  from assms(1) obtain st where st: "set_add (set_types acc)
      (dict_get kvs (U ''set_type'') JNull) = Inr st"
    unfolding e using set_add_ok by fastforce
  define acc1 where "acc1 = acc\<lparr>sample_sets := sample_sets acc @ [set_info kvs],
      set_types := st\<rparr>"
  have a1: "str_bound (oldest acc1)" "str_bound (newest acc1)"
    using assms(2,3) by (simp_all add: acc1_def)
  have body: "sets_body acc e =
      (if truthy (dict_get kvs (U ''released_at'') JNull)
       then date_step acc1 (dict_get kvs (U ''released_at'') JNull) else Inr acc1)"
    unfolding e acc1_def by (simp only: sets_body.simps st sum.case Let_def)
  show ?thesis
  proof (cases "truthy (dict_get kvs (U ''released_at'') JNull)")
    case True
    with assms(1) obtain s where s: "dict_get kvs (U ''released_at'') JNull = JStr s"
      unfolding e by (cases "dict_get kvs (U ''released_at'') JNull") simp_all
    from True have "sets_body acc e = date_step acc1 (JStr s)"
      unfolding body s by simp
    with date_step_ok[OF a1, of s] show ?thesis by simp
  next
    case False
    then show ?thesis unfolding body using a1 by simp
  qed
qed

lemma sets_loop_ok:
  "\<forall>e\<in>set es. well_formed_set e \<Longrightarrow> str_bound (oldest acc) \<Longrightarrow> str_bound (newest acc) \<Longrightarrow>
   \<exists>acc'. sets_loop acc es = Inr acc'"
proof (induction es arbitrary: acc)
  case Nil
  then show ?case by simp
next
  case (Cons e es)
  from sets_body_ok[of e acc] Cons.prems obtain acc1 where
    b: "sets_body acc e = Inr acc1" "str_bound (oldest acc1)" "str_bound (newest acc1)"
    by auto
  from Cons.IH[OF _ b(2,3)] Cons.prems(1) obtain acc' where "sets_loop acc1 es = Inr acc'"
    by auto
  with b(1) show ?case by simp
qed

text \<open>
  X1. \<open>explore_sets\<close> returns a dictionary (it does not raise) whenever the fetch
  returns an object whose \<open>data\<close> is a list and every sampled entry is a dictionary
  with a hashable \<open>set_type\<close> and a \<open>released_at\<close> that is a string or falsy.
\<close>

theorem explore_sets_returns:
  assumes "fst (make_request self (U ''/sets'') JNull) = Inr (JObj kvs)"
    and "dict_get kvs (U ''data'') (JArr []) = JArr es"
    and "\<forall>e\<in>set (slice_to es limit). well_formed_set e"
  shows "\<exists>r. fst (explore_sets self limit) = Inr r"
proof (cases "kvs = []")
  case True
  then have "\<not> truthy (JObj kvs)" by simp
  from explore_sets_falsy[OF assms(1) this] show ?thesis by blast
next
  case False
  then have "truthy (JObj kvs)" by simp
  from explore_sets_truthy[OF assms(1) this]
  have e: "fst (explore_sets self limit) = sets_analysis (JObj kvs) limit" .
  from sets_loop_ok[OF assms(3), of sets_init] obtain acc where
    "sets_loop sets_init (slice_to es limit) = Inr acc"
    by (auto simp: sets_init_def)
  then show ?thesis unfolding e sets_analysis_def py_get.simps assms(2) by simp
qed

theorem explore_sets_returns_witness:
  "fst (make_request (answering two_sets) (U ''/sets'') JNull) = Inr two_sets
   \<and> well_formed_set inr_set \<and> well_formed_set mh1_set
   \<and> (\<exists>r. fst (explore_sets (answering two_sets) 2) = Inr r)"
  using explore_sets_returns[of "answering two_sets" "[(U ''data'', JArr [inr_set, mh1_set])]"
      "[inr_set, mh1_set]" 2]
  by (simp add: make_request_answering two_sets_def dict_get_def slice_to_def)
     (simp add: inr_set_def mh1_set_def dict_get_def)


lemma add_card_type_ok: "str_or_falsy v \<Longrightarrow> \<exists>s'. add_card_type s v = Inr s'"
  by (cases v) (auto simp: add_card_type_def set_add_def)

lemma add_if_ok: "hashable x \<or> \<not> truthy x \<Longrightarrow> \<exists>s'. add_if s x = Inr s'"
  by (auto simp: add_if_def set_add_def)

lemma update_if_ok:
  assumes "colors_ok x"
  shows "\<exists>s'. update_if s x = Inr s'"
proof (cases "truthy x")
  case True
  have "list_all hashable (iterated x) \<and> set_update s x = set_add_all s (iterated x)"
    using assms True by (cases x) (simp_all add: list_all_iff)
  with set_add_all_ok[of "iterated x" s] True show ?thesis by (simp add: update_if_def)
next
  case False
  then show ?thesis by (simp add: update_if_def)
qed

lemma cards_body_ok:
  assumes "well_formed_card x"
  shows "\<exists>acc'. cards_body acc x = Inr acc'"
proof -
  from assms obtain kvs where x: "x = JObj kvs" by (cases x) simp_all
  from assms obtain ts where ts: "add_card_type (card_types acc)
      (dict_get kvs (U ''type_line'') JNull) = Inr ts"
    unfolding x using add_card_type_ok by fastforce
  from assms obtain rs where rs: "add_if (rarities acc)
      (dict_get kvs (U ''rarity'') JNull) = Inr rs"
    unfolding x using add_if_ok by fastforce
  from assms obtain cl where cl: "update_if (colors acc)
      (dict_get kvs (U ''colors'') JNull) = Inr cl"
    unfolding x using update_if_ok by fastforce
  from assms obtain ls where ls: "add_if (languages acc)
      (dict_get kvs (U ''lang'') JNull) = Inr ls"
    unfolding x using add_if_ok by fastforce
  show ?thesis unfolding x by (simp only: cards_body.simps ts rs cl ls sum.case) blast
qed

lemma cards_loop_ok:
  "\<forall>x\<in>set cs. well_formed_card x \<Longrightarrow> \<exists>acc'. cards_loop acc cs = Inr acc'"
proof (induction cs arbitrary: acc)
  case Nil
  then show ?case by simp
next
  case (Cons x cs)
  from cards_body_ok[of x acc] Cons.prems obtain acc1 where b: "cards_body acc x = Inr acc1"
    by auto
  from Cons.IH[of acc1] Cons.prems obtain acc' where "cards_loop acc1 cs = Inr acc'"
    by auto
  with b show ?case by simp
qed

text \<open>
  X2. \<open>explore_cards\<close> returns a dictionary (it does not raise) whenever the fetch
  returns an object whose \<open>data\<close> is a list and every sampled card is a dictionary with
  a \<open>type_line\<close> that is a string or falsy, \<open>rarity\<close> and \<open>lang\<close> hashable or falsy, and
  \<open>colors\<close> falsy or iterable with hashable elements.
\<close>

theorem explore_cards_returns:
  assumes "fst (make_request self (U ''/cards/search'')
       (JObj [(U ''q'', JStr (U ''set:'' @ set_core)), (U ''page'', JInt 1)])) = Inr (JObj kvs)"
    and "dict_get kvs (U ''data'') (JArr []) = JArr cs"
    and "\<forall>x\<in>set (slice_to cs limit). well_formed_card x"
  shows "\<exists>r. fst (explore_cards self set_core limit) = Inr r"
proof (cases "kvs = []")
  case True
  then have "\<not> truthy (JObj kvs)" by simp
  from explore_cards_falsy[OF assms(1) this] show ?thesis by blast
next
  case False
  then have "truthy (JObj kvs)" by simp
  from explore_cards_truthy[OF assms(1) this]
  have e: "fst (explore_cards self set_core limit) = cards_analysis (JObj kvs) limit" .
  from cards_loop_ok[OF assms(3), of cards_init] obtain acc where
    "cards_loop cards_init (slice_to cs limit) = Inr acc"
    by auto
  then show ?thesis unfolding e cards_analysis_def py_get.simps assms(2) by simp
qed

theorem explore_cards_returns_witness:
  "fst (make_request (answering bolt) (U ''/cards/search'')
        (JObj [(U ''q'', JStr (U ''set:'' @ U ''inr'')), (U ''page'', JInt 1)])) = Inr bolt
   \<and> list_all well_formed_card (elements (item bolt (U ''data'')))
   \<and> (\<exists>r. fst (explore_cards (answering bolt) (U ''inr'') 5) = Inr r)"
proof -
  define c where "c = [(U ''name'', JStr (U ''Bolt'')), (U ''type_line'', JStr (U ''Instant'')),
            (U ''rarity'', JStr (U ''common'')), (U ''colors'', JArr [JStr (U ''R'')]),
            (U ''lang'', JStr (U ''en''))]"
  have bd: "bolt = JObj [(U ''data'', JArr [JObj c])]"
    by (simp add: bolt_def c_def)
  have m: "fst (make_request (answering bolt) (U ''/cards/search'')
        (JObj [(U ''q'', JStr (U ''set:'' @ U ''inr'')), (U ''page'', JInt 1)]))
     = Inr (JObj [(U ''data'', JArr [JObj c])])"
    by (simp add: make_request_answering bd)
  have g: "dict_get [(U ''data'', JArr [JObj c])] (U ''data'') (JArr []) = JArr [JObj c]"
    by (simp add: dict_get_def)
  have w: "well_formed_card (JObj c)"
    by (simp add: c_def dict_get_def)
  then have a: "\<forall>x\<in>set (slice_to [JObj c] 5). well_formed_card x"
    by (simp add: slice_to_def)
  have el: "elements (item bolt (U ''data'')) = [JObj c]"
    by (simp add: bd item_def dict_get_def elements_def)
  from explore_cards_returns[OF m g a]
  show ?thesis using m w el by (simp add: bd)
qed


text \<open>
  X3. A fetch that returns a truthy value that is not an object, here the list \<open>[1]\<close>,
  makes both analyzers raise \<open>AttributeError\<close> at the first \<open>.get\<close>.
\<close>

theorem analyzers_raise_on_list_payload:
  "truthy (JArr [JInt 1])
   \<and> fst (explore_sets (answering (JArr [JInt 1])) 5) = Inl AttributeError
   \<and> fst (explore_cards (answering (JArr [JInt 1])) (U ''inr'') 5) = Inl AttributeError"
  by (simp add: sets_eval cards_eval)

text \<open>
  X4. Release dates of different types, a number and then a string, make
  \<open>explore_sets\<close> raise \<open>TypeError\<close> at the comparison \<open>release_date < oldest\<close>.
\<close>

theorem explore_sets_raises_on_mixed_dates:
  "fst (explore_sets (answering mixed_dates) 2) = Inl TypeError"
  by (simp add: sets_eval mixed_dates_def)

end
